theory Spec2Isabelle
  imports Main "HOL-Library.AList"
begin

section \<open>Values, dictionaries and strings\<close>

text \<open>
  Python values that reach a payload or the export: \<open>None\<close>, integers, strings, lists
  and dictionaries with string keys. A dictionary is an association list with the keys in
  insertion order; \<open>d[k] = v\<close> is \<open>AList.update k v d\<close>, which replaces the value of a
  key that is present and keeps its position, and appends a new key at the end.
\<close>

datatype val = VNone | VInt int | VStr string | VList "val list" | VDict "(string \<times> val) list"

type_synonym payload = "(string \<times> val) list"

text \<open>\<open>s.endswith(suf)\<close>\<close>

definition endswith :: "string \<Rightarrow> string \<Rightarrow> bool" where
  "endswith s suf \<longleftrightarrow> length suf \<le> length s \<and> drop (length s - length suf) s = suf"

text \<open>Truth value of an \<open>Optional[str]\<close>: \<open>None\<close> and the empty string are false.\<close>

fun truthy :: "string option \<Rightarrow> bool" where
  "truthy None = False"
| "truthy (Some s) = (s \<noteq> [])"

text \<open>\<open>x or "genesis"\<close> for an \<open>Optional[str]\<close> \<open>x\<close>.\<close>

fun or_genesis :: "string option \<Rightarrow> string" where
  "or_genesis None = ''genesis''"
| "or_genesis (Some s) = (if s = [] then ''genesis'' else s)"

datatype error = ValueError | RuntimeError | KeyError string | TypeError | IndexError

section \<open>Data model\<close>

text \<open>A signed event: the dictionary returned by the signing collaborator.\<close>

record event =
  ev_agent_id :: string
  ev_payload :: payload
  ev_previous_hash :: string
  ev_signature :: string

record identity =
  private_key_bytes :: string
  public_key_bytes :: string
  identity_agent_id :: string

text \<open>\<open>AgentMember\<close>; \<open>member_events\<close> is the attribute \<open>_events\<close>.\<close>

record member =
  name :: string
  private_key :: string
  public_key :: string
  agent_id :: string
  previous_hash :: "string option"
  member_events :: "event list"

text \<open>The dictionary returned by \<open>_handshake_pair\<close>.\<close>

record handshake =
  agent_a :: string
  agent_b :: string
  agent_a_id :: string
  agent_b_id :: string
  hs_session_id :: string
  event_a_hash :: string
  event_b_hash :: string
  timestamp :: int

text \<open>\<open>AgentSession\<close>; \<open>agents\<close> is the dictionary \<open>_agents\<close>, \<open>handshakes\<close> is \<open>_handshakes\<close>.\<close>

record session =
  session_id :: string
  started_at :: "int option"
  started :: bool
  agents :: "(string \<times> member) list"
  handshakes :: "handshake list"

text \<open>One entry of the list given to the constructor.\<close>

record agent_def =
  def_name :: string
  identity_file :: string

text \<open>
  What lies outside the session object: a counter of the calls made so far to the clock,
  the random source and the signing library (their results may differ from call to call),
  the event store written by \<open>aiss.store_event\<close>, and the files written by \<open>export\<close>.
\<close>

record env =
  tick :: nat
  store :: "event list"
  files :: "(string \<times> val) list"

section \<open>External collaborators\<close>

text \<open>
  The functions of \<open>hashlib\<close>, \<open>uuid\<close>, \<open>time\<close> and \<open>piqrypt\<close> that the module calls are
  parameters. Those that read the clock or a random source take the call counter.
  They are taken to return normally. The progress messages that the module prints have no
  effect on a session and are left out.
\<close>

record ext =
  digest :: "val \<Rightarrow> string"
  load_identity :: "string \<Rightarrow> identity"
  uuid4_hex :: "nat \<Rightarrow> string"
  time_int :: "nat \<Rightarrow> int"
  time_str :: "nat \<Rightarrow> string"
  sign_event :: "nat \<Rightarrow> string \<Rightarrow> string \<Rightarrow> payload \<Rightarrow> string \<Rightarrow> string"
  compute_event_hash :: "event \<Rightarrow> string"
  create_identity_proposal :: "nat \<Rightarrow> string \<Rightarrow> string \<Rightarrow> string \<Rightarrow> string list \<Rightarrow> payload \<Rightarrow> val"
  create_identity_response :: "nat \<Rightarrow> string \<Rightarrow> string \<Rightarrow> string \<Rightarrow> val \<Rightarrow> string list \<Rightarrow> val"
  handshake_payload :: "nat \<Rightarrow> string \<Rightarrow> val \<Rightarrow> val \<Rightarrow> payload"
  handshake_signature :: "nat \<Rightarrow> string \<Rightarrow> string \<Rightarrow> val \<Rightarrow> val \<Rightarrow> string \<Rightarrow> string"

text \<open>
  Modelled from the spec: \<open>aiss.stamp_event\<close> belongs to the piqrypt library. By sections
  3 and 6 of the specification, \<open>sign_event(private_key, agent_id, payload, previous_hash)\<close>
  returns an event holding the given payload and previous hash and a signature produced
  with the private key.
\<close>

definition stamp_event :: "ext \<Rightarrow> nat \<Rightarrow> string \<Rightarrow> string \<Rightarrow> payload \<Rightarrow> string \<Rightarrow> event" where
  "stamp_event X t key aid pl prev =
     \<lparr>ev_agent_id = aid, ev_payload = pl, ev_previous_hash = prev,
      ev_signature = sign_event X t key aid pl prev\<rparr>"

text \<open>
  Modelled from the spec: \<open>build_cosigned_handshake_event\<close> belongs to the piqrypt library.
  By section 4.3 of the specification it builds an event from the pair (proposal, response)
  with the given previous hash, signed with the private key.
\<close>

definition build_cosigned_handshake_event ::
  "ext \<Rightarrow> nat \<Rightarrow> string \<Rightarrow> string \<Rightarrow> val \<Rightarrow> val \<Rightarrow> string \<Rightarrow> event" where
  "build_cosigned_handshake_event X t key aid proposal response prev =
     \<lparr>ev_agent_id = aid, ev_payload = handshake_payload X t aid proposal response,
      ev_previous_hash = prev,
      ev_signature = handshake_signature X t key aid proposal response prev\<rparr>"

section \<open>AgentMember\<close>

definition new_member :: "ext \<Rightarrow> string \<Rightarrow> string \<Rightarrow> member" where
  "new_member X nm file =
     (let ident = load_identity X file
      in \<lparr>name = nm, private_key = private_key_bytes ident,
          public_key = public_key_bytes ident, agent_id = identity_agent_id ident,
          previous_hash = None, member_events = []\<rparr>)"

text \<open>The merged payload of \<open>AgentMember.stamp\<close>.\<close>

definition full_payload ::
  "payload \<Rightarrow> string \<Rightarrow> string \<Rightarrow> string option \<Rightarrow> string option \<Rightarrow> payload" where
  "full_payload pl event_type sid peer_id peer_signature =
     (let fp = AList.update ''aiss_profile'' (VStr ''AISS-1'')
                (AList.update ''session_id'' (VStr sid)
                  (AList.update ''event_type'' (VStr event_type) pl));
          fp1 = (case peer_id of
                   None \<Rightarrow> fp
                 | Some p \<Rightarrow> if p \<noteq> [] then AList.update ''peer_agent_id'' (VStr p) fp else fp)
      in (case peer_signature of
            None \<Rightarrow> fp1
          | Some g \<Rightarrow> if g \<noteq> [] then AList.update ''peer_signature'' (VStr g) fp1 else fp1))"

text \<open>
  \<open>AgentMember.stamp\<close>: returns the event, the member after the call and the environment
  after the call.
\<close>

definition member_stamp ::
  "ext \<Rightarrow> member \<Rightarrow> string \<Rightarrow> payload \<Rightarrow> string \<Rightarrow> string option \<Rightarrow> string option \<Rightarrow> env
     \<Rightarrow> event \<times> member \<times> env" where
  "member_stamp X m event_type pl sid peer_id peer_signature E =
     (let ev = stamp_event X (tick E) (private_key m) (agent_id m)
                 (full_payload pl event_type sid peer_id peer_signature)
                 (or_genesis (previous_hash m))
      in (ev,
          m\<lparr>previous_hash := Some (compute_event_hash X ev),
            member_events := member_events m @ [ev]\<rparr>,
          E\<lparr>tick := Suc (tick E), store := store E @ [ev]\<rparr>))"

text \<open>
  The property \<open>events\<close>: a copy of the list. As a value the copy is the list itself; the
  objects behind it are the subject of the section on heap objects below.
\<close>

definition events :: "member \<Rightarrow> event list" where
  "events m = member_events m"

section \<open>AgentSession\<close>

subsection \<open>Construction\<close>

text \<open>The loop that fills the registry: \<open>self._agents[name] = AgentMember(name, identity_file)\<close>.\<close>

definition build_registry :: "ext \<Rightarrow> agent_def list \<Rightarrow> (string \<times> member) list" where
  "build_registry X defs =
     fold (\<lambda>d reg. AList.update (def_name d) (new_member X (def_name d) (identity_file d)) reg)
       defs []"

text \<open>\<open>AgentSession.__init__\<close>\<close>

definition new_session :: "ext \<Rightarrow> agent_def list \<Rightarrow> env \<Rightarrow> (error + session) \<times> env" where
  "new_session X defs E =
     (if length defs < 2 then (Inl ValueError, E)
      else (Inr \<lparr>session_id = ''sess_'' @ take 16 (uuid4_hex X (tick E)),
                 started_at = None, started = False,
                 agents = build_registry X defs, handshakes = []\<rparr>,
            E\<lparr>tick := Suc (tick E)\<rparr>))"

subsection \<open>Handshakes\<close>

definition capabilities :: "string list" where
  "capabilities = [''stamp'', ''verify'', ''a2a'', ''session'']"

text \<open>
  \<open>_handshake_pair\<close>, called on two different member objects: returns the handshake record,
  both members after the call and the environment after the call.
\<close>

definition handshake_pair ::
  "ext \<Rightarrow> string \<Rightarrow> member \<Rightarrow> member \<Rightarrow> env \<Rightarrow> handshake \<times> member \<times> member \<times> env" where
  "handshake_pair X sid a b E =
     (let t = tick E;
          proposal = create_identity_proposal X t (private_key a) (public_key a) (agent_id a)
                       capabilities [(''session_id'', VStr sid), (''name'', VStr (name a))];
          response = create_identity_response X (t + 1) (private_key b) (public_key b)
                       (agent_id b) proposal capabilities;
          ea0 = build_cosigned_handshake_event X (t + 2) (private_key a) (agent_id a)
                  proposal response (or_genesis (previous_hash a));
          event_a = ea0\<lparr>ev_payload := AList.update ''peer_name'' (VStr (name b))
                        (AList.update ''session_id'' (VStr sid) (ev_payload ea0))\<rparr>;
          a' = a\<lparr>previous_hash := Some (compute_event_hash X event_a),
                 member_events := member_events a @ [event_a]\<rparr>;
          eb0 = build_cosigned_handshake_event X (t + 3) (private_key b) (agent_id b)
                  proposal response (or_genesis (previous_hash b));
          event_b = eb0\<lparr>ev_payload := AList.update ''peer_name'' (VStr (name a))
                        (AList.update ''session_id'' (VStr sid) (ev_payload eb0))\<rparr>;
          b' = b\<lparr>previous_hash := Some (compute_event_hash X event_b),
                 member_events := member_events b @ [event_b]\<rparr>
      in (\<lparr>agent_a = name a, agent_b = name b,
           agent_a_id = agent_id a, agent_b_id = agent_id b,
           hs_session_id = sid,
           event_a_hash = compute_event_hash X event_a,
           event_b_hash = compute_event_hash X event_b,
           timestamp = time_int X (t + 4)\<rparr>,
          a', b',
          E\<lparr>tick := t + 5, store := store E @ [event_a, event_b]\<rparr>))"

text \<open>
  The inner loop of \<open>start\<close> for one \<open>i\<close>: the member at position \<open>i\<close> shakes hands with
  every member after it, in order.
\<close>

fun handshake_row ::
  "ext \<Rightarrow> string \<Rightarrow> string \<times> member \<Rightarrow> (string \<times> member) list \<Rightarrow> env
     \<Rightarrow> (string \<times> member) \<times> (string \<times> member) list \<times> handshake list \<times> env" where
  "handshake_row X sid a [] E = (a, [], [], E)"
| "handshake_row X sid a (b # bs) E =
     (case handshake_pair X sid (snd a) (snd b) E of
        (h, ma, mb, E1) \<Rightarrow>
          (case handshake_row X sid (fst a, ma) bs E1 of
             (a2, bs2, hs, E2) \<Rightarrow> (a2, (fst b, mb) # bs2, h # hs, E2)))"

lemma handshake_row_length:
  "handshake_row X sid a bs E = (a2, bs2, hs, E2) \<Longrightarrow> length bs2 = length bs \<and> length hs = length bs"
  by (induction bs arbitrary: a E a2 bs2 hs E2) (auto split: prod.splits)

text \<open>
  The two nested loops of \<open>start\<close> over \<open>i\<close> and \<open>j > i\<close>: the first member shakes
  hands with all the later ones, then the loops go on with the later ones as that left them.
\<close>

function handshake_all ::
  "ext \<Rightarrow> string \<Rightarrow> (string \<times> member) list \<Rightarrow> env
     \<Rightarrow> (string \<times> member) list \<times> handshake list \<times> env" where
  "handshake_all X sid [] E = ([], [], E)"
| "handshake_all X sid (a # rest) E =
     (case handshake_row X sid a rest E of
        (a2, rest2, hs, E1) \<Rightarrow>
          (case handshake_all X sid rest2 E1 of
             (rest3, hs2, E2) \<Rightarrow> (a2 # rest3, hs @ hs2, E2)))"
  by pat_completeness auto
termination
  by (relation "measure (\<lambda>(X, sid, reg, E). length reg)")
     (auto dest: handshake_row_length [OF sym])

subsection \<open>start\<close>

text \<open>\<open>for agent in ...: agent.stamp(event_type, payload, session_id)\<close>, used by \<open>start\<close> and \<open>end\<close>.\<close>

fun stamp_each ::
  "ext \<Rightarrow> string \<Rightarrow> payload \<Rightarrow> string \<Rightarrow> (string \<times> member) list \<Rightarrow> env
     \<Rightarrow> (string \<times> member) list \<times> env" where
  "stamp_each X et pl sid [] E = ([], E)"
| "stamp_each X et pl sid (a # r) E =
     (case member_stamp X (snd a) et pl sid None None E of
        (ev, m', E1) \<Rightarrow>
          (case stamp_each X et pl sid r E1 of
             (r2, E2) \<Rightarrow> ((fst a, m') # r2, E2)))"

definition session_start_payload :: "session \<Rightarrow> payload" where
  "session_start_payload s =
     [(''session_id'', VStr (session_id s)),
      (''participants'', VList (map (\<lambda>a. VStr (agent_id (snd a))) (agents s))),
      (''participant_names'', VList (map (\<lambda>a. VStr (fst a)) (agents s))),
      (''agent_count'', VInt (int (length (agents s))))]"

definition start :: "ext \<Rightarrow> session \<Rightarrow> env \<Rightarrow> (error + unit) \<times> session \<times> env" where
  "start X s E =
     (if started s then (Inl RuntimeError, s, E)
      else
        (let s0 = s\<lparr>started_at := Some (time_int X (tick E))\<rparr>;
             E0 = E\<lparr>tick := Suc (tick E)\<rparr>
         in (case stamp_each X ''session_start'' (session_start_payload s0) (session_id s0)
                    (agents s0) E0 of
               (reg1, E1) \<Rightarrow>
                 (case handshake_all X (session_id s0) reg1 E1 of
                    (reg2, hs, E2) \<Rightarrow>
                      (Inr (),
                       s0\<lparr>agents := reg2, handshakes := handshakes s0 @ hs, started := True\<rparr>,
                       E2)))))"

subsection \<open>stamp\<close>

text \<open>\<open>_require_started\<close>: the error it raises, if any.\<close>

definition require_started :: "session \<Rightarrow> error option" where
  "require_started s = (if \<not> started s then Some RuntimeError else None)"

text \<open>\<open>_get_agent\<close>\<close>

definition get_agent :: "session \<Rightarrow> string \<Rightarrow> error + member" where
  "get_agent s nm =
     (case map_of (agents s) nm of
        None \<Rightarrow> Inl (KeyError nm)
      | Some m \<Rightarrow> Inr m)"

text \<open>Whether the redaction loop keeps the field under its own key.\<close>

definition kept_verbatim :: "string \<Rightarrow> bool" where
  "kept_verbatim key \<longleftrightarrow> endswith key ''_hash'' \<or> endswith key ''_id'' \<or> key = ''session_id''"

text \<open>The redaction loop of \<open>stamp\<close>, which builds \<open>safe_payload\<close>.\<close>

definition redact :: "ext \<Rightarrow> payload \<Rightarrow> payload" where
  "redact X pl =
     fold (\<lambda>kv safe.
             if kept_verbatim (fst kv) then AList.update (fst kv) (snd kv) safe
             else AList.update (fst kv @ ''_hash'') (VStr (digest X (snd kv))) safe)
       pl []"

text \<open>
  The hash shared by both sides of a co-signed stamp:
  \<open>_h(f"{agent.agent_id}:{peer_agent.agent_id}:{time.time()}")\<close>.
\<close>

definition shared_interaction_hash :: "ext \<Rightarrow> member \<Rightarrow> member \<Rightarrow> env \<Rightarrow> string" where
  "shared_interaction_hash X agent peer_agent E =
     digest X (VStr (agent_id agent @ '':'' @ agent_id peer_agent @ '':'' @ time_str X (tick E)))"

text \<open>
  \<open>AgentSession.stamp\<close>. A reference to a member object is its key in the registry: the
  two names denote the same object exactly when they are equal, and then the second stamp
  works on the member as the first one left it.
\<close>

definition stamp ::
  "ext \<Rightarrow> string \<Rightarrow> string \<Rightarrow> payload \<Rightarrow> string option \<Rightarrow> session \<Rightarrow> env
     \<Rightarrow> (error + event) \<times> session \<times> env" where
  "stamp X agent_name event_type pl peer s E =
     (case require_started s of
        Some err \<Rightarrow> (Inl err, s, E)
      | None \<Rightarrow>
     (case get_agent s agent_name of
        Inl err \<Rightarrow> (Inl err, s, E)
      | Inr agent \<Rightarrow>
          (let safe_payload = redact X pl
           in (case (if truthy peer then peer else None) of
                 Some peer_name \<Rightarrow>
                   (case get_agent s peer_name of
                      Inl err \<Rightarrow> (Inl err, s, E)
                    | Inr peer_agent \<Rightarrow>
                        (let interaction_hash = shared_interaction_hash X agent peer_agent E;
                             E0 = E\<lparr>tick := Suc (tick E)\<rparr>
                         in (case member_stamp X agent event_type
                                    (AList.update ''my_role'' (VStr ''initiator'')
                                      (AList.update ''interaction_hash'' (VStr interaction_hash)
                                        safe_payload))
                                    (session_id s) (Some (agent_id peer_agent)) None E0 of
                               (event_agent, agent1, E1) \<Rightarrow>
                                 (let s1 = s\<lparr>agents := AList.update agent_name agent1 (agents s)\<rparr>;
                                      peer_now = (if peer_name = agent_name then agent1
                                                  else peer_agent)
                                  in (case member_stamp X peer_now (event_type @ ''_received'')
                                             (AList.update ''my_role'' (VStr ''responder'')
                                               (AList.update ''interaction_hash''
                                                 (VStr interaction_hash) safe_payload))
                                             (session_id s) (Some (agent_id agent))
                                             (Some (ev_signature event_agent)) E1 of
                                        (event_peer, peer1, E2) \<Rightarrow>
                                          (Inr event_agent,
                                           s1\<lparr>agents := AList.update peer_name peer1 (agents s1)\<rparr>,
                                           E2))))))
               | None \<Rightarrow>
                   (case member_stamp X agent event_type safe_payload (session_id s)
                           None None E of
                      (ev, agent1, E1) \<Rightarrow>
                        (Inr ev, s\<lparr>agents := AList.update agent_name agent1 (agents s)\<rparr>, E1))))))"

subsection \<open>summary, end and export\<close>

definition opt_int :: "int option \<Rightarrow> val" where
  "opt_int x = (case x of None \<Rightarrow> VNone | Some i \<Rightarrow> VInt i)"

definition opt_str :: "string option \<Rightarrow> val" where
  "opt_str x = (case x of None \<Rightarrow> VNone | Some t \<Rightarrow> VStr t)"

definition handshake_val :: "handshake \<Rightarrow> val" where
  "handshake_val h =
     VDict [(''agent_a'', VStr (agent_a h)), (''agent_b'', VStr (agent_b h)),
            (''agent_a_id'', VStr (agent_a_id h)), (''agent_b_id'', VStr (agent_b_id h)),
            (''session_id'', VStr (hs_session_id h)),
            (''event_a_hash'', VStr (event_a_hash h)),
            (''event_b_hash'', VStr (event_b_hash h)),
            (''timestamp'', VInt (timestamp h))]"

definition event_val :: "event \<Rightarrow> val" where
  "event_val e =
     VDict [(''agent_id'', VStr (ev_agent_id e)), (''payload'', VDict (ev_payload e)),
            (''previous_hash'', VStr (ev_previous_hash e)),
            (''signature'', VStr (ev_signature e))]"

text \<open>\<open>sum(len(a.events) for a in self._agents.values())\<close>\<close>

definition total_events :: "session \<Rightarrow> int" where
  "total_events s = sum_list (map (\<lambda>a. int (length (events (snd a)))) (agents s))"

text \<open>
  \<open>AgentSession.summary\<close>. The dictionary comprehension over the registry inserts one
  entry per item, in order.
\<close>

definition summary :: "session \<Rightarrow> val" where
  "summary s =
     VDict [(''session_id'', VStr (session_id s)),
            (''started_at'', opt_int (started_at s)),
            (''agents'',
               VDict (fold (\<lambda>a d. AList.update (fst a)
                              (VDict [(''agent_id'', VStr (agent_id (snd a))),
                                      (''event_count'', VInt (int (length (events (snd a))))),
                                      (''last_hash'', opt_str (previous_hash (snd a)))]) d)
                        (agents s) [])),
            (''handshakes'', VList (map handshake_val (handshakes s))),
            (''handshake_count'', VInt (int (length (handshakes s)))),
            (''total_events'', VInt (total_events s))]"

text \<open>
  \<open>AgentSession.end\<close>. Subtracting \<open>started_at\<close> while it is still \<open>None\<close> is a
  \<open>TypeError\<close> in Python.
\<close>

definition end_session :: "ext \<Rightarrow> session \<Rightarrow> env \<Rightarrow> (error + val) \<times> session \<times> env" where
  "end_session X s E =
     (case require_started s of
        Some err \<Rightarrow> (Inl err, s, E)
      | None \<Rightarrow>
     (let ended_at = time_int X (tick E);
          E0 = E\<lparr>tick := Suc (tick E)\<rparr>
      in (case started_at s of
            None \<Rightarrow> (Inl TypeError, s, E0)
          | Some t0 \<Rightarrow>
              (let duration = ended_at - t0;
                   total = total_events s
               in (case stamp_each X ''session_end''
                          [(''session_id'', VStr (session_id s)),
                           (''duration_seconds'', VInt duration),
                           (''total_events'', VInt total)]
                          (session_id s) (agents s) E0 of
                     (reg1, E1) \<Rightarrow>
                       (let s1 = s\<lparr>agents := reg1\<rparr> in (Inr (summary s1), s1, E1)))))))"

text \<open>
  \<open>AgentSession.export\<close>. The file holds the JSON text of \<open>export_data\<close>; it is kept as
  the value that \<open>json.loads\<close> gives back from that text.
\<close>

definition export_data :: "session \<Rightarrow> val" where
  "export_data s =
     VDict [(''session'', summary s),
            (''agents'',
               VDict (fold (\<lambda>a d. AList.update (fst a)
                              (VDict [(''agent_id'', VStr (agent_id (snd a))),
                                      (''event_count'', VInt (int (length (events (snd a))))),
                                      (''events'', VList (map event_val (events (snd a))))]) d)
                        (agents s) []))]"

definition export :: "ext \<Rightarrow> string \<Rightarrow> session \<Rightarrow> env \<Rightarrow> (error + string) \<times> session \<times> env" where
  "export X output_path s E =
     (case require_started s of
        Some err \<Rightarrow> (Inl err, s, E)
      | None \<Rightarrow>
          (Inr output_path, s, E\<lparr>files := AList.update output_path (export_data s) (files E)\<rparr>))"

text \<open>Reading a key of a dictionary value.\<close>

fun val_get :: "string \<Rightarrow> val \<Rightarrow> val option" where
  "val_get k (VDict d) = map_of d k"
| "val_get k v = None"

section \<open>The log of a member as heap objects\<close>

text \<open>
  For questions of aliasing, the list \<open>_events\<close> and the event dictionaries are objects in
  a heap: a list object holds the addresses of its items. The three places of
  \<open>AgentMember\<close> that touch the list are \<open>self._events = []\<close> in the constructor,
  \<open>self._events.append(event)\<close> in \<open>stamp\<close>, and \<open>self._events.copy()\<close> in the property
  \<open>events\<close>.
\<close>

type_synonym addr = nat

record heap =
  next_addr :: addr
  list_objs :: "addr \<Rightarrow> addr list option"
  dict_objs :: "addr \<Rightarrow> event option"

definition empty_heap :: heap where
  "empty_heap = \<lparr>next_addr = 0, list_objs = (\<lambda>a. None), dict_objs = (\<lambda>a. None)\<rparr>"

text \<open>Allocation of a new list object and of a new event dictionary.\<close>

definition alloc_list :: "heap \<Rightarrow> addr list \<Rightarrow> addr \<times> heap" where
  "alloc_list H items =
     (next_addr H,
      H\<lparr>next_addr := Suc (next_addr H), list_objs := (list_objs H)(next_addr H := Some items)\<rparr>)"

definition alloc_event :: "heap \<Rightarrow> event \<Rightarrow> addr \<times> heap" where
  "alloc_event H e =
     (next_addr H,
      H\<lparr>next_addr := Suc (next_addr H), dict_objs := (dict_objs H)(next_addr H := Some e)\<rparr>)"

text \<open>\<open>self._events = []\<close>: the address of the new list.\<close>

definition new_events_list :: "heap \<Rightarrow> addr \<times> heap" where
  "new_events_list H = alloc_list H []"

text \<open>
  \<open>self._events.append(event)\<close> for the event just built, a new dictionary; \<open>ref\<close> is
  the address held by \<open>self._events\<close>.
\<close>

definition events_append :: "heap \<Rightarrow> addr \<Rightarrow> event \<Rightarrow> heap" where
  "events_append H ref e =
     (case alloc_event H e of
        (a, H1) \<Rightarrow>
          (case list_objs H1 ref of
             None \<Rightarrow> H1
           | Some items \<Rightarrow> H1\<lparr>list_objs := (list_objs H1)(ref := Some (items @ [a]))\<rparr>))"

text \<open>The property \<open>events\<close>: \<open>self._events.copy()\<close>, a new list with the same items.\<close>

definition events_copy :: "heap \<Rightarrow> addr \<Rightarrow> addr \<times> heap" where
  "events_copy H ref =
     alloc_list H (case list_objs H ref of None \<Rightarrow> [] | Some items \<Rightarrow> items)"

text \<open>The history a member holds: the events its list refers to, in order.\<close>

definition history :: "heap \<Rightarrow> addr \<Rightarrow> event list" where
  "history H ref =
     (case list_objs H ref of
        None \<Rightarrow> []
      | Some items \<Rightarrow> List.map_filter (dict_objs H) items)"

text \<open>
  What a caller can do to a list \<open>view\<close> it holds: \<open>view.append(x)\<close> for an object \<open>x\<close>,
  \<open>view.pop()\<close>, \<open>view[i] = x\<close>, \<open>view.clear()\<close>, and a change in place of the record
  \<open>view[i]\<close>, such as \<open>view[i]["previous_hash"] = h\<close>. Out of range, Python raises
  \<open>IndexError\<close> and changes nothing.
\<close>

datatype mutation =
    ListAppend addr
  | ListPop
  | ListSetItem nat addr
  | ListClear
  | RecordUpdate nat "event \<Rightarrow> event"

fun on_list_only :: "mutation \<Rightarrow> bool" where
  "on_list_only (RecordUpdate i f) = False"
| "on_list_only mu = True"

fun apply_mutation :: "heap \<Rightarrow> addr \<Rightarrow> mutation \<Rightarrow> error + heap" where
  "apply_mutation H view (ListAppend x) =
     (case list_objs H view of
        None \<Rightarrow> Inl TypeError
      | Some items \<Rightarrow> Inr (H\<lparr>list_objs := (list_objs H)(view := Some (items @ [x]))\<rparr>))"
| "apply_mutation H view ListPop =
     (case list_objs H view of
        None \<Rightarrow> Inl TypeError
      | Some items \<Rightarrow>
          if items = [] then Inl IndexError
          else Inr (H\<lparr>list_objs := (list_objs H)(view := Some (butlast items))\<rparr>))"
| "apply_mutation H view (ListSetItem i x) =
     (case list_objs H view of
        None \<Rightarrow> Inl TypeError
      | Some items \<Rightarrow>
          if i < length items
          then Inr (H\<lparr>list_objs := (list_objs H)(view := Some (items[i := x]))\<rparr>)
          else Inl IndexError)"
| "apply_mutation H view ListClear =
     (case list_objs H view of
        None \<Rightarrow> Inl TypeError
      | Some items \<Rightarrow> Inr (H\<lparr>list_objs := (list_objs H)(view := Some [])\<rparr>))"
| "apply_mutation H view (RecordUpdate i f) =
     (case list_objs H view of
        None \<Rightarrow> Inl TypeError
      | Some items \<Rightarrow>
          if i < length items
          then (case dict_objs H (items ! i) of
                  None \<Rightarrow> Inl TypeError
                | Some e \<Rightarrow> Inr (H\<lparr>dict_objs := (dict_objs H)(items ! i := Some (f e))\<rparr>))
          else Inl IndexError)"

text \<open>Every object of the heap lies below the next free address.\<close>

definition wf_heap :: "heap \<Rightarrow> bool" where
  "wf_heap H \<longleftrightarrow>
     (\<forall>a. list_objs H a \<noteq> None \<longrightarrow> a < next_addr H) \<and>
     (\<forall>a. dict_objs H a \<noteq> None \<longrightarrow> a < next_addr H)"

section \<open>Sequences of operations and the chain invariant\<close>

text \<open>
  A caller's calls on one session, one after the other. A call that raises leaves the
  session and the environment as the call left them, and the caller goes on.
\<close>

datatype op = Start | Stamp string string payload "string option" | End | Export string

fun step :: "ext \<Rightarrow> op \<Rightarrow> session \<times> env \<Rightarrow> session \<times> env" where
  "step X Start (s, E) = snd (start X s E)"
| "step X (Stamp a t pl peer) (s, E) = snd (stamp X a t pl peer s E)"
| "step X End (s, E) = snd (end_session X s E)"
| "step X (Export path) (s, E) = snd (export X path s E)"

definition run :: "ext \<Rightarrow> op list \<Rightarrow> session \<times> env \<Rightarrow> session \<times> env" where
  "run X ops w = fold (step X) ops w"

text \<open>
  A log is linked from \<open>prev\<close> when its first event carries \<open>prev\<close> as previous hash
  and every later event carries the hash of the event before it.
\<close>

fun linked :: "ext \<Rightarrow> string \<Rightarrow> event list \<Rightarrow> bool" where
  "linked X prev [] = True"
| "linked X prev (e # es) = (ev_previous_hash e = prev \<and> linked X (compute_event_hash X e) es)"

text \<open>The invariant of one member: its log is linked from the genesis sentinel and its
  stored hash is that of its last event.\<close>

definition chain_inv :: "ext \<Rightarrow> member \<Rightarrow> bool" where
  "chain_inv X m \<longleftrightarrow>
     linked X ''genesis'' (member_events m) \<and>
     previous_hash m =
       (if member_events m = [] then None
        else Some (compute_event_hash X (last (member_events m))))"

definition all_inv :: "ext \<Rightarrow> (string \<times> member) list \<Rightarrow> bool" where
  "all_inv X reg \<longleftrightarrow> (\<forall>a \<in> set reg. chain_inv X (snd a))"

text \<open>The chain head of a member: the value its next event gets as previous hash.\<close>

definition chain_head :: "member \<Rightarrow> string" where
  "chain_head m = or_genesis (previous_hash m)"

text \<open>The log of the member registered under a name (empty when there is none).\<close>

definition member_log :: "session \<Rightarrow> string \<Rightarrow> event list" where
  "member_log s nm = (case map_of (agents s) nm of None \<Rightarrow> [] | Some m \<Rightarrow> member_events m)"

text \<open>Reading a value of a document along a path of keys.\<close>

fun val_path :: "string list \<Rightarrow> val \<Rightarrow> val option" where
  "val_path [] v = Some v"
| "val_path (k # ks) v = (case val_get k v of None \<Rightarrow> None | Some v' \<Rightarrow> val_path ks v')"

text \<open>
  The keys that the session itself writes into the payload of a stamped event
  (in \<open>AgentMember.stamp\<close> and in the co-signed branch of \<open>AgentSession.stamp\<close>).
\<close>

definition session_keys :: "string set" where
  "session_keys = {''event_type'', ''session_id'', ''aiss_profile'', ''peer_agent_id'',
                   ''peer_signature'', ''interaction_hash'', ''my_role''}"

text \<open>The events that a call has passed to the event store.\<close>

definition stored_by :: "env \<Rightarrow> env \<Rightarrow> event list" where
  "stored_by E E' = drop (length (store E)) (store E')"

text \<open>The key and the value under which the redaction loop stores a field.\<close>

definition stored_key :: "string \<Rightarrow> string" where
  "stored_key k = (if kept_verbatim k then k else k @ ''_hash'')"

definition stored_val :: "ext \<Rightarrow> string \<times> val \<Rightarrow> val" where
  "stored_val X kv = (if kept_verbatim (fst kv) then snd kv else VStr (digest X (snd kv)))"






section \<open>A concrete instance for examples\<close>

text \<open>
  Simple stand-ins for the collaborators, on which the model can be run: identities are
  derived from the file name, signatures and hashes are readable strings.
\<close>

definition X0 :: ext where
  "X0 = \<lparr>digest = (\<lambda>v. case v of VStr t \<Rightarrow> ''sha('' @ t @ '')'' | _ \<Rightarrow> ''sha(?)''),
         load_identity = (\<lambda>f. \<lparr>private_key_bytes = ''sk-'' @ f, public_key_bytes = ''pk-'' @ f,
                                identity_agent_id = ''id-'' @ f\<rparr>),
         uuid4_hex = (\<lambda>t. ''0123456789abcdef0123456789abcdef''),
         time_int = (\<lambda>t. 1000 + int t),
         time_str = (\<lambda>t. ''1000.5''),
         sign_event = (\<lambda>t key aid pl prev. ''sig('' @ aid @ '','' @ prev @ '')''),
         compute_event_hash = (\<lambda>e. ''H('' @ ev_signature e @ '')''),
         create_identity_proposal = (\<lambda>t sk pk aid caps meta. VDict ((''agent_id'', VStr aid) # meta)),
         create_identity_response =
           (\<lambda>t sk pk aid prop caps. VDict [(''agent_id'', VStr aid), (''proposal'', prop)]),
         handshake_payload =
           (\<lambda>t aid prop resp. [(''event_type'', VStr ''a2a_handshake''),
                                (''proposal'', prop), (''response'', resp)]),
         handshake_signature = (\<lambda>t key aid prop resp prev. ''hsig('' @ aid @ '','' @ prev @ '')'')\<rparr>"

definition env0 :: env where
  "env0 = \<lparr>tick = 0, store = [], files = []\<rparr>"

definition defs_AB :: "agent_def list" where
  "defs_AB = [\<lparr>def_name = ''A'', identity_file = ''a''\<rparr>, \<lparr>def_name = ''B'', identity_file = ''b''\<rparr>]"


text \<open>The session that the constructor builds from \<open>defs_AB\<close>, and the environment after it.\<close>

definition sess_AB :: session where
  "sess_AB = \<lparr>session_id = ''sess_0123456789abcdef'', started_at = None, started = False,
     agents = [(''A'', \<lparr>name = ''A'', private_key = ''sk-a'', public_key = ''pk-a'',
                agent_id = ''id-a'', previous_hash = None, member_events = []\<rparr>),
               (''B'', \<lparr>name = ''B'', private_key = ''sk-b'', public_key = ''pk-b'',
                agent_id = ''id-b'', previous_hash = None, member_events = []\<rparr>)],
     handshakes = []\<rparr>"

definition env1 :: env where
  "env1 = \<lparr>tick = 1, store = [], files = []\<rparr>"

definition ops_AB :: "op list" where
  "ops_AB = [Start, Stamp ''A'' ''advice'' [(''x'', VInt 1)] (Some ''B''), End]"

text \<open>The two-agent session after \<open>start\<close>.\<close>

definition started_AB :: "session \<times> env" where
  "started_AB = snd (start X0 sess_AB env1)"

text \<open>Two entries of the same name.\<close>

definition defs_AA :: "agent_def list" where
  "defs_AA = [\<lparr>def_name = ''A'', identity_file = ''a''\<rparr>, \<lparr>def_name = ''A'', identity_file = ''a2''\<rparr>]"

text \<open>The two members of the started two-agent session.\<close>

definition agent_A :: member where
  "agent_A = snd (agents (fst started_AB) ! 0)"

definition agent_B :: member where
  "agent_B = snd (agents (fst started_AB) ! 1)"

text \<open>A unilateral stamp on the started two-agent session.\<close>

definition trade_stamp :: "(error + event) \<times> session \<times> env" where
  "trade_stamp = stamp X0 ''A'' ''trade'' [(''symbol'', VStr ''AAPL''), (''order_id'', VStr ''X1'')]
                   None (fst started_AB) (snd started_AB)"


text \<open>A heap with one member whose log holds one event, and that event.\<close>

definition event1 :: event where
  "event1 = \<lparr>ev_agent_id = ''id-a'', ev_payload = [(''event_type'', VStr ''session_start'')],
             ev_previous_hash = ''genesis'', ev_signature = ''sig(id-a,genesis)''\<rparr>"

definition heap1 :: heap where
  "heap1 = events_append (snd (new_events_list empty_heap)) 0 event1"

section \<open>Lemmas on dictionaries and on stamping\<close>

lemma fold_update_map_of:
  "map_of (fold (\<lambda>d reg. AList.update (k d) (v d) reg) ds reg0) =
   map_of (rev (map (\<lambda>d. (k d, v d)) ds) @ reg0)"
proof (induction ds arbitrary: reg0)
  case Nil
  then show ?case by simp
next
  case (Cons d ds)
  show ?case
    by (simp add: Cons.IH update_conv' fun_eq_iff map_add_def split: option.splits)
qed

lemma fold_update_distinct:
  "distinct (map fst reg0) \<Longrightarrow>
   distinct (map fst (fold (\<lambda>d reg. AList.update (k d) (v d) reg) ds reg0))"
  by (induction ds arbitrary: reg0) (simp_all add: distinct_update)

lemma fold_update_keys:
  "fst ` set (fold (\<lambda>d reg. AList.update (k d) (v d) reg) ds reg0) = k ` set ds \<union> fst ` set reg0"
  by (induction ds arbitrary: reg0) (auto simp: dom_update)

lemma started_AB_facts:
  "started (fst started_AB)"
  "map_of (agents (fst started_AB)) ''A'' = Some agent_A"
  "map_of (agents (fst started_AB)) ''B'' = Some agent_B"
  "agent_id agent_A = ''id-a''"
  unfolding started_AB_def agent_A_def agent_B_def by code_simp+

lemma full_payload_lookup:
  "map_of (full_payload pl et sid pid psig) k =
     (if k = ''peer_signature'' \<and> truthy psig then map_option VStr psig
      else if k = ''peer_agent_id'' \<and> truthy pid then map_option VStr pid
      else if k = ''aiss_profile'' then Some (VStr ''AISS-1'')
      else if k = ''session_id'' then Some (VStr sid)
      else if k = ''event_type'' then Some (VStr et)
      else map_of pl k)"
  by (cases pid; cases psig) (simp_all add: full_payload_def Let_def update_conv')

lemma member_stamp_result:
  "member_stamp X m et pl sid pid psig E = (ev, m', E') \<Longrightarrow>
     ev = stamp_event X (tick E) (private_key m) (agent_id m)
            (full_payload pl et sid pid psig) (or_genesis (previous_hash m)) \<and>
     m' = m\<lparr>previous_hash := Some (compute_event_hash X ev),
            member_events := member_events m @ [ev]\<rparr> \<and>
     E' = E\<lparr>tick := Suc (tick E), store := store E @ [ev]\<rparr>"
  by (auto simp: member_stamp_def Let_def)

lemma member_stamp_payload:
  "member_stamp X m et pl sid pid psig E = (ev, m', E') \<Longrightarrow>
     ev_payload ev = full_payload pl et sid pid psig \<and>
     member_events m' = member_events m @ [ev]"
  by (auto simp: member_stamp_def Let_def stamp_event_def)

section \<open>The hash chain of every member\<close>

lemma linked_snoc:
  "linked X prev (es @ [e]) \<longleftrightarrow>
     linked X prev es \<and>
     ev_previous_hash e = (if es = [] then prev else compute_event_hash X (last es))"
  by (induction es arbitrary: prev) auto

lemma linked_nth:
  "linked X prev es \<longleftrightarrow>
     (\<forall>i < length es. ev_previous_hash (es ! i) =
         (if i = 0 then prev else compute_event_hash X (es ! (i - 1))))"
proof (induction es rule: rev_induct)
  case Nil
  then show ?case by simp
next
  case (snoc e es)
  have last: "es \<noteq> [] \<Longrightarrow> last es = es ! (length es - 1)"
    by (simp add: last_conv_nth)
  show ?case
    unfolding linked_snoc snoc.IH
    by (auto simp: less_Suc_eq nth_append last)
qed

lemma member_stamp_inv:
  assumes "\<forall>e. compute_event_hash X e \<noteq> []" "chain_inv X m"
    "member_stamp X m et pl sid pid psig E = (ev, m', E')"
  shows "chain_inv X m'"
  using assms
  by (auto simp: member_stamp_def chain_inv_def Let_def linked_snoc stamp_event_def)

lemma handshake_pair_inv:
  assumes "\<forall>e. compute_event_hash X e \<noteq> []" "chain_inv X a" "chain_inv X b"
    "handshake_pair X sid a b E = (h, a', b', E')"
  shows "chain_inv X a' \<and> chain_inv X b'"
  using assms
  by (auto simp: handshake_pair_def chain_inv_def Let_def linked_snoc build_cosigned_handshake_event_def)

lemma in_update_cases:
  "x \<in> set (AList.update k v al) \<Longrightarrow> x = (k, v) \<or> x \<in> set al"
  by (induction al) (auto split: if_splits)

lemma all_inv_update:
  "all_inv X reg \<Longrightarrow> chain_inv X m \<Longrightarrow> all_inv X (AList.update k m reg)"
  unfolding all_inv_def by (auto dest: in_update_cases)

lemma all_inv_map_of:
  "all_inv X reg \<Longrightarrow> map_of reg k = Some m \<Longrightarrow> chain_inv X m"
  unfolding all_inv_def by (force dest: map_of_SomeD)

lemma stamp_each_inv:
  assumes "\<forall>e. compute_event_hash X e \<noteq> []"
  shows "all_inv X reg \<Longrightarrow> stamp_each X et pl sid reg E = (reg', E') \<Longrightarrow> all_inv X reg'"
proof (induction reg arbitrary: E reg' E')
  case Nil
  then show ?case by (simp add: all_inv_def)
next
  case (Cons a reg)
  obtain ev m1 E1 where ms: "member_stamp X (snd a) et pl sid None None E = (ev, m1, E1)"
    by (cases "member_stamp X (snd a) et pl sid None None E") auto
  obtain r2 E2 where se: "stamp_each X et pl sid reg E1 = (r2, E2)"
    by (cases "stamp_each X et pl sid reg E1") auto
  from Cons.prems(1) have ia: "chain_inv X (snd a)" and ir: "all_inv X reg"
    by (auto simp: all_inv_def)
  from member_stamp_inv [OF assms ia ms] have "chain_inv X m1" .
  moreover from Cons.IH [OF ir se] have "all_inv X r2" .
  moreover from Cons.prems(2) ms se have "reg' = (fst a, m1) # r2" by simp
  ultimately show ?case by (simp add: all_inv_def)
qed

lemma handshake_row_inv:
  assumes "\<forall>e. compute_event_hash X e \<noteq> []"
  shows "chain_inv X (snd a) \<Longrightarrow> all_inv X bs \<Longrightarrow>
         handshake_row X sid a bs E = (a2, bs2, hs, E2) \<Longrightarrow>
         chain_inv X (snd a2) \<and> all_inv X bs2"
proof (induction bs arbitrary: a E a2 bs2 hs E2)
  case Nil
  then show ?case by simp
next
  case (Cons b bs)
  obtain h ma mb E1 where hp: "handshake_pair X sid (snd a) (snd b) E = (h, ma, mb, E1)"
    by (cases "handshake_pair X sid (snd a) (snd b) E") auto
  obtain a3 bs3 hs3 E3 where hr: "handshake_row X sid (fst a, ma) bs E1 = (a3, bs3, hs3, E3)"
    by (cases "handshake_row X sid (fst a, ma) bs E1") auto
  from Cons.prems have ia: "chain_inv X (snd a)" and ib: "chain_inv X (snd b)" and ibs: "all_inv X bs"
    by (auto simp: all_inv_def)
  from handshake_pair_inv [OF assms ia ib hp] have ma: "chain_inv X ma" and mb: "chain_inv X mb"
    by auto
  from Cons.IH [of "(fst a, ma)" E1 a3 bs3 hs3 E3] ma ibs hr
  have "chain_inv X (snd a3) \<and> all_inv X bs3" by simp
  moreover from Cons.prems(3) hp hr have "a2 = a3" "bs2 = (fst b, mb) # bs3" by auto
  ultimately show ?case using mb by (simp add: all_inv_def)
qed

lemma handshake_all_inv:
  "all_inv X reg \<Longrightarrow> handshake_all X sid reg E = (reg', hs, E') \<Longrightarrow>
   \<forall>e. compute_event_hash X e \<noteq> [] \<Longrightarrow> all_inv X reg'"
proof (induction X sid reg E arbitrary: reg' hs E' rule: handshake_all.induct)
  case (1 X sid E)
  then show ?case by (simp add: all_inv_def)
next
  case (2 X sid a rest E)
  obtain a2 rest2 hs1 E1 where hr: "handshake_row X sid a rest E = (a2, rest2, hs1, E1)"
    by (cases "handshake_row X sid a rest E") auto
  obtain rest3 hs2 E2 where ha: "handshake_all X sid rest2 E1 = (rest3, hs2, E2)"
    by (cases "handshake_all X sid rest2 E1") auto
  from "2.prems"(1) have "chain_inv X (snd a)" "all_inv X rest" by (auto simp: all_inv_def)
  with handshake_row_inv [OF "2.prems"(3) _ _ hr] have a2: "chain_inv X (snd a2)" and r2: "all_inv X rest2"
    by auto
  from "2.IH" [OF hr [symmetric] refl refl r2 ha "2.prems"(3)] have "all_inv X rest3" .
  moreover from "2.prems"(2) hr ha have "reg' = a2 # rest3" by simp
  ultimately show ?case using a2 by (simp add: all_inv_def)
qed


lemma start_inv:
  assumes "\<forall>e. compute_event_hash X e \<noteq> []" "all_inv X (agents s)"
  shows "all_inv X (agents (fst (snd (start X s E))))"
proof (cases "started s")
  case True
  then show ?thesis using assms(2) by (simp add: start_def)
next
  case False
  let ?s0 = "s\<lparr>started_at := Some (time_int X (tick E))\<rparr>"
  let ?E0 = "E\<lparr>tick := Suc (tick E)\<rparr>"
  obtain reg1 E1 where se:
    "stamp_each X ''session_start'' (session_start_payload ?s0) (session_id s) (agents s) ?E0 = (reg1, E1)"
    by (cases "stamp_each X ''session_start'' (session_start_payload ?s0) (session_id s) (agents s) ?E0") auto
  obtain reg2 hs E2 where ha: "handshake_all X (session_id s) reg1 E1 = (reg2, hs, E2)"
    by (cases "handshake_all X (session_id s) reg1 E1") auto
  from stamp_each_inv [OF assms(1) assms(2) se] have "all_inv X reg1" .
  from handshake_all_inv [OF this ha assms(1)] have "all_inv X reg2" .
  then show ?thesis using False se ha by (simp add: start_def Let_def)
qed

lemma end_session_inv:
  assumes "\<forall>e. compute_event_hash X e \<noteq> []" "all_inv X (agents s)"
  shows "all_inv X (agents (fst (snd (end_session X s E))))"
  using assms
  by (auto simp: end_session_def require_started_def Let_def
           split: option.splits prod.splits dest: stamp_each_inv)

lemma export_inv:
  "all_inv X (agents s) \<Longrightarrow> all_inv X (agents (fst (snd (export X path s E))))"
  by (simp add: export_def split: option.splits)

lemma get_agent_inv:
  "all_inv X (agents s) \<Longrightarrow> get_agent s nm = Inr m \<Longrightarrow> chain_inv X m"
  by (auto simp: get_agent_def split: option.splits dest: all_inv_map_of)

lemma stamp_inv:
  assumes h: "\<forall>e. compute_event_hash X e \<noteq> []" and inv: "all_inv X (agents s)"
  shows "all_inv X (agents (fst (snd (stamp X a et pl peer s E))))"
proof -
  note ms = member_stamp_inv [OF h]
  show ?thesis
    using inv
    by (auto simp: stamp_def Let_def
           split: option.splits sum.splits prod.splits if_splits
           intro!: all_inv_update dest: get_agent_inv ms)
qed

lemma step_inv:
  assumes "\<forall>e. compute_event_hash X e \<noteq> []" "all_inv X (agents (fst w))"
  shows "all_inv X (agents (fst (step X opn w)))"
  using assms
  by (cases w; cases opn) (simp_all add: start_inv stamp_inv end_session_inv export_inv)

lemma run_inv:
  assumes "\<forall>e. compute_event_hash X e \<noteq> []"
  shows "all_inv X (agents (fst w)) \<Longrightarrow> all_inv X (agents (fst (run X ops w)))"
  unfolding run_def
  by (induction ops arbitrary: w) (simp_all add: step_inv [OF assms])

lemma build_registry_fresh:
  "a \<in> set (fold (\<lambda>d reg. AList.update (def_name d) (new_member X (def_name d) (identity_file d)) reg) defs reg0)
   \<Longrightarrow> a \<in> set reg0 \<or> (\<exists>d \<in> set defs. a = (def_name d, new_member X (def_name d) (identity_file d)))"
  by (induction defs arbitrary: reg0) (auto dest: in_update_cases)

lemma new_member_inv: "chain_inv X (new_member X nm file)"
  by (simp add: new_member_def chain_inv_def Let_def)

lemma new_session_inv:
  "new_session X defs E = (Inr s, E') \<Longrightarrow> all_inv X (agents s)"
  by (auto simp: new_session_def build_registry_def all_inv_def new_member_inv
           split: if_splits dest!: build_registry_fresh)

text \<open>
  C1. After construction and any sequence of start, stamp, end and export calls, the log of
  every member of the registry starts with an event whose previous hash is the genesis
  sentinel, every later event has the hash of the event before it as previous hash, and the
  member's chain head is the hash of its last event, or the sentinel when the log is empty.
  The event hash of the collaborator is taken never to be the empty string.
\<close>

theorem chain_integrity:
  assumes "\<forall>e. compute_event_hash X e \<noteq> []"
    and "new_session X defs E = (Inr s, E0)"
    and "run X ops (s, E0) = (s', E')"
    and "(nm, m) \<in> set (agents s')"
  shows "(\<forall>i < length (member_events m).
            ev_previous_hash (member_events m ! i) =
              (if i = 0 then ''genesis''
               else compute_event_hash X (member_events m ! (i - 1))))
       \<and> chain_head m =
            (if member_events m = [] then ''genesis''
             else compute_event_hash X (last (member_events m)))"
proof -
  from new_session_inv [OF assms(2)] have "all_inv X (agents (fst (s, E0)))" by simp
  from run_inv [OF assms(1) this, of ops] assms(3) have "all_inv X (agents s')" by simp
  with assms(4) have "chain_inv X m" by (auto simp: all_inv_def)
  then show ?thesis
    using assms(1) by (auto simp: chain_inv_def chain_head_def linked_nth [symmetric])
qed

lemma new_session_AB: "new_session X0 defs_AB env0 = (Inr sess_AB, env1)"
  by code_simp

theorem chain_integrity_witness:
  "(\<forall>e. compute_event_hash X0 e \<noteq> []) \<and>
   new_session X0 defs_AB env0 = (Inr sess_AB, env1) \<and>
   (let m = snd (hd (agents (fst (run X0 ops_AB (sess_AB, env1)))))
    in (''A'', m) \<in> set (agents (fst (run X0 ops_AB (sess_AB, env1)))) \<and>
       length (member_events m) = 4 \<and>
       ev_previous_hash (member_events m ! 0) = ''genesis'' \<and>
       ev_previous_hash (member_events m ! 3) = compute_event_hash X0 (member_events m ! 2) \<and>
       chain_head m = compute_event_hash X0 (last (member_events m)))"
proof -
  define w where "w = run X0 ops_AB (sess_AB, env1)"
  define m where "m = snd (hd (agents (fst w)))"
  have h: "\<forall>e. compute_event_hash X0 e \<noteq> []" by (simp add: X0_def)
  have r: "run X0 ops_AB (sess_AB, env1) = (fst w, snd w)" by (simp add: w_def)
  have mem: "(''A'', m) \<in> set (agents (fst w))" unfolding m_def w_def by code_simp
  have len: "length (member_events m) = 4" unfolding m_def w_def by code_simp
  from chain_integrity [OF h new_session_AB r mem] len
  have "ev_previous_hash (member_events m ! 0) = ''genesis''"
    and "ev_previous_hash (member_events m ! 3) = compute_event_hash X0 (member_events m ! 2)"
    and "chain_head m = compute_event_hash X0 (last (member_events m))"
    by auto
  with h new_session_AB mem len show ?thesis
    unfolding Let_def m_def w_def by blast
qed

section \<open>The life cycle of a session\<close>

lemma start_started: "started s \<Longrightarrow> start X s E = (Inl RuntimeError, s, E)"
  by (simp add: start_def)

lemma start_not_started:
  "\<not> started s \<Longrightarrow> fst (start X s E) = Inr () \<and> started (fst (snd (start X s E)))"
  by (simp add: start_def Let_def split: prod.splits)

lemma stamp_keeps_started:
  "started s \<Longrightarrow> started (fst (snd (stamp X a et pl peer s E)))"
  by (simp add: stamp_def Let_def require_started_def split: option.splits sum.splits prod.splits)

lemma end_session_keeps_started:
  "started s \<Longrightarrow> started (fst (snd (end_session X s E)))"
  by (simp add: end_session_def Let_def require_started_def split: option.splits prod.splits)

lemma export_started:
  "started s \<Longrightarrow> fst (export X path s E) = Inr path \<and> fst (snd (export X path s E)) = s"
  by (simp add: export_def require_started_def)

lemma stamp_not_runtime_error:
  "started s \<Longrightarrow> fst (stamp X a et pl peer s E) \<noteq> Inl RuntimeError"
  by (auto simp: stamp_def Let_def require_started_def get_agent_def split: option.splits sum.splits prod.splits)

lemma end_session_not_runtime_error:
  "started s \<Longrightarrow> fst (end_session X s E) \<noteq> Inl RuntimeError"
  by (auto simp: end_session_def Let_def require_started_def split: option.splits prod.splits)

text \<open>
  C2, as amended. The session has two states, told apart by the flag \<open>started\<close>; nothing in
  the code records that a session has ended. A call of start on a started session is
  rejected and changes nothing; on a session not started it succeeds and sets the flag.
  stamp, export and end are rejected, with nothing changed, on a session not started. No
  call clears the flag: after end the session is still started, and further stamp, export
  and end calls are not rejected for the state they find.
\<close>

theorem session_lifecycle:
  "(started s \<longrightarrow> start X s E = (Inl RuntimeError, s, E)) \<and>
   (\<not> started s \<longrightarrow>
      fst (start X s E) = Inr () \<and> started (fst (snd (start X s E))) \<and>
      stamp X a et pl peer s E = (Inl RuntimeError, s, E) \<and>
      export X path s E = (Inl RuntimeError, s, E) \<and>
      end_session X s E = (Inl RuntimeError, s, E)) \<and>
   (started s \<longrightarrow>
      started (fst (snd (stamp X a et pl peer s E))) \<and>
      fst (export X path s E) = Inr path \<and> fst (snd (export X path s E)) = s \<and>
      started (fst (snd (end_session X s E))) \<and>
      (let s' = fst (snd (end_session X s E)); E' = snd (snd (end_session X s E))
       in fst (stamp X a et pl peer s' E') \<noteq> Inl RuntimeError \<and>
          fst (export X path s' E') = Inr path \<and>
          fst (end_session X s' E') \<noteq> Inl RuntimeError))"
proof (cases "started s")
  case True
  then have "started (fst (snd (end_session X s E)))"
    by (rule end_session_keeps_started)
  with True show ?thesis
    by (simp add: start_started stamp_keeps_started export_started
          stamp_not_runtime_error end_session_not_runtime_error Let_def)
next
  case False
  then show ?thesis
    by (simp add: start_not_started stamp_def export_def end_session_def require_started_def)
qed

theorem session_lifecycle_witness:
  "\<not> started sess_AB \<and>
   fst (start X0 sess_AB env1) = Inr () \<and>
   stamp X0 ''A'' ''advice'' [] None sess_AB env1 = (Inl RuntimeError, sess_AB, env1) \<and>
   started (fst started_AB) \<and>
   start X0 (fst started_AB) (snd started_AB) = (Inl RuntimeError, fst started_AB, snd started_AB) \<and>
   started (fst (snd (end_session X0 (fst started_AB) (snd started_AB))))"
proof -
  have n: "\<not> started sess_AB" by (simp add: sess_AB_def)
  from n session_lifecycle [of sess_AB X0 env1 "''A''" "''advice''" "[]" None "''f''"]
  have a: "fst (start X0 sess_AB env1) = Inr ()" "started (fst started_AB)"
    "stamp X0 ''A'' ''advice'' [] None sess_AB env1 = (Inl RuntimeError, sess_AB, env1)"
    by (simp_all add: started_AB_def)
  from a(2) session_lifecycle [of "fst started_AB" X0 "snd started_AB" "''A''" "''advice''" "[]" None "''f''"]
  have "start X0 (fst started_AB) (snd started_AB) = (Inl RuntimeError, fst started_AB, snd started_AB)"
    "started (fst (snd (end_session X0 (fst started_AB) (snd started_AB))))"
    by simp_all
  with n a show ?thesis by simp
qed

text \<open>
  C2 as stated fails: after start and end on the two-agent session, stamp, end and export
  all return normally.
\<close>

theorem ended_state_counterexample:
  "(let w = run X0 [Start, End] (sess_AB, env1)
    in fst (stamp X0 ''A'' ''late'' [] None (fst w) (snd w)) \<noteq> Inl RuntimeError \<and>
       \<not> isl (fst (stamp X0 ''A'' ''late'' [] None (fst w) (snd w))) \<and>
       \<not> isl (fst (end_session X0 (fst w) (snd w))) \<and>
       \<not> isl (fst (export X0 ''audit.json'' (fst w) (snd w))))"
  by code_simp

section \<open>The handshakes of start\<close>














section \<open>Co-signed stamps\<close>

text \<open>What a co-signed stamp does, with both events named.\<close>

lemma cosigned_stamp:
  assumes "started s" and "map_of (agents s) a = Some agent" and "p \<noteq> []"
    and "map_of (agents s) p = Some peer_agent"
  shows "\<exists>ev_i agent1 E1 ev_r peer1 E2.
           member_stamp X agent et
             (AList.update ''my_role'' (VStr ''initiator'')
               (AList.update ''interaction_hash''
                 (VStr (shared_interaction_hash X agent peer_agent E)) (redact X pl)))
             (session_id s) (Some (agent_id peer_agent)) None (E\<lparr>tick := Suc (tick E)\<rparr>)
             = (ev_i, agent1, E1) \<and>
           member_stamp X (if p = a then agent1 else peer_agent) (et @ ''_received'')
             (AList.update ''my_role'' (VStr ''responder'')
               (AList.update ''interaction_hash''
                 (VStr (shared_interaction_hash X agent peer_agent E)) (redact X pl)))
             (session_id s) (Some (agent_id agent)) (Some (ev_signature ev_i)) E1
             = (ev_r, peer1, E2) \<and>
           stamp X a et pl (Some p) s E =
             (Inr ev_i,
              s\<lparr>agents := AList.update p peer1 (AList.update a agent1 (agents s))\<rparr>, E2)"
proof -
  let ?ih = "VStr (shared_interaction_hash X agent peer_agent E)"
  obtain ev_i agent1 E1 where
    i: "member_stamp X agent et
             (AList.update ''my_role'' (VStr ''initiator'')
               (AList.update ''interaction_hash'' ?ih (redact X pl)))
             (session_id s) (Some (agent_id peer_agent)) None (E\<lparr>tick := Suc (tick E)\<rparr>)
             = (ev_i, agent1, E1)"
    by (metis prod_cases3)
  obtain ev_r peer1 E2 where
    r: "member_stamp X (if p = a then agent1 else peer_agent) (et @ ''_received'')
             (AList.update ''my_role'' (VStr ''responder'')
               (AList.update ''interaction_hash'' ?ih (redact X pl)))
             (session_id s) (Some (agent_id agent)) (Some (ev_signature ev_i)) E1
             = (ev_r, peer1, E2)"
    by (metis prod_cases3)
  have "stamp X a et pl (Some p) s E =
             (Inr ev_i,
              s\<lparr>agents := AList.update p peer1 (AList.update a agent1 (agents s))\<rparr>, E2)"
    using assms i r
    by (simp add: stamp_def require_started_def get_agent_def Let_def)
  with i r show ?thesis by blast
qed

lemma cosigned_logs:
  assumes "started s" and "map_of (agents s) a = Some agent" and "p \<noteq> []"
    and "map_of (agents s) p = Some peer_agent"
  shows "\<exists>ev_i ev_r s' E'.
           stamp X a et pl (Some p) s E = (Inr ev_i, s', E') \<and>
           member_log s' a = member_log s a @ (if p = a then [ev_i, ev_r] else [ev_i]) \<and>
           member_log s' p = member_log s p @ (if p = a then [ev_i, ev_r] else [ev_r]) \<and>
           (\<exists>t k i q h. ev_signature ev_i = sign_event X t k i q h) \<and>
           ev_payload ev_i =
             full_payload (AList.update ''my_role'' (VStr ''initiator'')
               (AList.update ''interaction_hash''
                 (VStr (shared_interaction_hash X agent peer_agent E)) (redact X pl)))
               et (session_id s) (Some (agent_id peer_agent)) None \<and>
           ev_payload ev_r =
             full_payload (AList.update ''my_role'' (VStr ''responder'')
               (AList.update ''interaction_hash''
                 (VStr (shared_interaction_hash X agent peer_agent E)) (redact X pl)))
               (et @ ''_received'') (session_id s) (Some (agent_id agent))
               (Some (ev_signature ev_i))"
proof -
  from cosigned_stamp [OF assms, where X = X and et = et and pl = pl and E = E]
  obtain ev_i agent1 E1 ev_r peer1 E2 where
    i: "member_stamp X agent et
             (AList.update ''my_role'' (VStr ''initiator'')
               (AList.update ''interaction_hash''
                 (VStr (shared_interaction_hash X agent peer_agent E)) (redact X pl)))
             (session_id s) (Some (agent_id peer_agent)) None (E\<lparr>tick := Suc (tick E)\<rparr>)
             = (ev_i, agent1, E1)" and
    r: "member_stamp X (if p = a then agent1 else peer_agent) (et @ ''_received'')
             (AList.update ''my_role'' (VStr ''responder'')
               (AList.update ''interaction_hash''
                 (VStr (shared_interaction_hash X agent peer_agent E)) (redact X pl)))
             (session_id s) (Some (agent_id agent)) (Some (ev_signature ev_i)) E1
             = (ev_r, peer1, E2)" and
    st: "stamp X a et pl (Some p) s E =
             (Inr ev_i,
              s\<lparr>agents := AList.update p peer1 (AList.update a agent1 (agents s))\<rparr>, E2)"
    by blast
  note pi = member_stamp_payload [OF i] and pr = member_stamp_payload [OF r]
  let ?s' = "s\<lparr>agents := AList.update p peer1 (AList.update a agent1 (agents s))\<rparr>"
  have la: "member_log ?s' a = member_log s a @ (if p = a then [ev_i, ev_r] else [ev_i])"
    using assms(2,4) pi pr by (simp add: member_log_def update_conv')
  have lp: "member_log ?s' p = member_log s p @ (if p = a then [ev_i, ev_r] else [ev_r])"
    using assms(2,4) pi pr by (auto simp: member_log_def update_conv')
  have sg: "(\<exists>t k i q h. ev_signature ev_i = sign_event X t k i q h)"
  proof -
    from member_stamp_result [OF i]
    have "ev_signature ev_i =
            sign_event X (Suc (tick E)) (private_key agent) (agent_id agent) (ev_payload ev_i)
              (or_genesis (previous_hash agent))"
      by (simp add: stamp_event_def)
    then show ?thesis by blast
  qed
  from st la lp pi pr sg show ?thesis by blast
qed



text \<open>
  C5. In a co-signed stamp on a started session, the responder's new event has the event
  type suffixed with \<open>_received\<close>, the role \<open>responder\<close>, the initiator's agent id as
  \<open>peer_agent_id\<close> and the signature of the initiator's event of the same call as
  \<open>peer_signature\<close>; the call returns the initiator's event. The initiator's agent id and
  the collaborator's signatures are taken to be non-empty strings.
\<close>

theorem cosigned_responder_event:
  assumes "started s" and "map_of (agents s) a = Some agent" and "p \<noteq> []"
    and "map_of (agents s) p = Some peer_agent"
    and "agent_id agent \<noteq> []"
    and "\<forall>t k i q h. sign_event X t k i q h \<noteq> []"
  shows "\<exists>ev_i ev_r s' E'.
           stamp X a et pl (Some p) s E = (Inr ev_i, s', E') \<and>
           member_log s' a = member_log s a @ (if p = a then [ev_i, ev_r] else [ev_i]) \<and>
           member_log s' p = member_log s p @ (if p = a then [ev_i, ev_r] else [ev_r]) \<and>
           map_of (ev_payload ev_r) ''event_type'' = Some (VStr (et @ ''_received'')) \<and>
           map_of (ev_payload ev_r) ''my_role'' = Some (VStr ''responder'') \<and>
           map_of (ev_payload ev_r) ''peer_agent_id'' = Some (VStr (agent_id agent)) \<and>
           map_of (ev_payload ev_r) ''peer_signature'' = Some (VStr (ev_signature ev_i))"
proof -
  from cosigned_logs [OF assms(1-4), where X = X and et = et and pl = pl and E = E]
  obtain ev_i ev_r s' E' where
    st: "stamp X a et pl (Some p) s E = (Inr ev_i, s', E')" and
    la: "member_log s' a = member_log s a @ (if p = a then [ev_i, ev_r] else [ev_i])" and
    lp: "member_log s' p = member_log s p @ (if p = a then [ev_i, ev_r] else [ev_r])" and
    sg: "(\<exists>t k i q h. ev_signature ev_i = sign_event X t k i q h)" and
    pr: "ev_payload ev_r =
             full_payload (AList.update ''my_role'' (VStr ''responder'')
               (AList.update ''interaction_hash''
                 (VStr (shared_interaction_hash X agent peer_agent E)) (redact X pl)))
               (et @ ''_received'') (session_id s) (Some (agent_id agent))
               (Some (ev_signature ev_i))"
    by blast
  from sg assms(6) have ne: "ev_signature ev_i \<noteq> []" by metis
  have "map_of (ev_payload ev_r) ''event_type'' = Some (VStr (et @ ''_received''))"
    and "map_of (ev_payload ev_r) ''my_role'' = Some (VStr ''responder'')"
    and "map_of (ev_payload ev_r) ''peer_agent_id'' = Some (VStr (agent_id agent))"
    and "map_of (ev_payload ev_r) ''peer_signature'' = Some (VStr (ev_signature ev_i))"
    unfolding pr using ne assms(5) by (simp_all add: full_payload_lookup update_conv')
  with st la lp show ?thesis by blast
qed

theorem cosigned_responder_event_witness:
  "started (fst started_AB) \<and>
   map_of (agents (fst started_AB)) ''A'' = Some agent_A \<and>
   map_of (agents (fst started_AB)) ''B'' = Some agent_B \<and>
   agent_id agent_A \<noteq> [] \<and>
   (\<forall>t k i q h. sign_event X0 t k i q h \<noteq> []) \<and>
   (\<exists>ev_i ev_r s' E'.
      stamp X0 ''A'' ''advice'' [(''x'', VInt 1)] (Some ''B'') (fst started_AB) (snd started_AB) =
        (Inr ev_i, s', E') \<and>
      member_log s' ''A'' = member_log (fst started_AB) ''A'' @ [ev_i] \<and>
      member_log s' ''B'' = member_log (fst started_AB) ''B'' @ [ev_r] \<and>
      map_of (ev_payload ev_r) ''event_type'' = Some (VStr ''advice_received'') \<and>
      map_of (ev_payload ev_r) ''my_role'' = Some (VStr ''responder'') \<and>
      map_of (ev_payload ev_r) ''peer_agent_id'' = Some (VStr ''id-a'') \<and>
      map_of (ev_payload ev_r) ''peer_signature'' = Some (VStr (ev_signature ev_i)))"
proof -
  have ne: "agent_id agent_A \<noteq> []" by (simp add: started_AB_facts(4))
  have sg: "\<forall>t k i q h. sign_event X0 t k i q h \<noteq> []" by (simp add: X0_def)
  from cosigned_responder_event [OF started_AB_facts(1,2) _ started_AB_facts(3) ne sg,
      where et = "''advice''" and pl = "[(''x'', VInt 1)]" and E = "snd started_AB"]
  show ?thesis
    using started_AB_facts(1-3) ne sg by (simp add: started_AB_facts(4))
qed

section \<open>Redaction of payload fields\<close>

lemma redact_alt:
  "redact X pl = fold (\<lambda>kv safe. AList.update (stored_key (fst kv)) (stored_val X kv) safe) pl []"
proof -
  have "(\<lambda>kv safe. if kept_verbatim (fst kv) then AList.update (fst kv) (snd kv) safe
              else AList.update (fst kv @ ''_hash'') (VStr (digest X (snd kv))) safe) =
        (\<lambda>kv safe. AList.update (stored_key (fst kv)) (stored_val X kv) safe)"
    by (auto simp: fun_eq_iff stored_key_def stored_val_def)
  then show ?thesis by (simp add: redact_def)
qed

lemma redact_map_of:
  "map_of (redact X pl) = map_of (rev (map (\<lambda>kv. (stored_key (fst kv), stored_val X kv)) pl))"
  using fold_update_map_of [of "\<lambda>kv. stored_key (fst kv)" "stored_val X" pl "[]"]
  by (simp add: redact_alt)

lemma map_of_unique:
  assumes "(key, w) \<in> set ys" and "\<forall>p \<in> set ys. fst p = key \<longrightarrow> snd p = w"
  shows "map_of ys key = Some w"
proof -
  from assms(1) obtain w' where w': "map_of ys key = Some w'"
    by (meson weak_map_of_SomeI)
  then have "(key, w') \<in> set ys" by (rule map_of_SomeD)
  with assms(2) have "w' = w" by auto
  with w' show ?thesis by simp
qed

lemma endswith_hash: "endswith (k @ ''_hash'') ''_hash''"
  by (simp add: endswith_def)

lemma kept_stored_key: "kept_verbatim (stored_key k)"
  by (simp add: stored_key_def kept_verbatim_def endswith_hash)

lemma redact_keys_kept:
  "map_of (redact X pl) key = Some w \<Longrightarrow> kept_verbatim key"
  by (auto simp: redact_map_of kept_stored_key dest!: map_of_SomeD)

lemma redact_field:
  assumes "(k, v) \<in> set pl" and "distinct (map fst pl)"
    and "\<forall>k' \<in> fst ` set pl. k' \<noteq> k \<longrightarrow> stored_key k' \<noteq> stored_key k"
  shows "map_of (redact X pl) (stored_key k) = Some (stored_val X (k, v))"
proof -
  let ?ys = "rev (map (\<lambda>kv. (stored_key (fst kv), stored_val X kv)) pl)"
  have in_ys: "(stored_key k, stored_val X (k, v)) \<in> set ?ys"
    using assms(1) by force
  have uniq: "\<forall>p \<in> set ?ys. fst p = stored_key k \<longrightarrow> snd p = stored_val X (k, v)"
  proof
    fix p assume "p \<in> set ?ys"
    then obtain k' v' where kv: "(k', v') \<in> set pl"
      and p: "p = (stored_key k', stored_val X (k', v'))"
      by auto
    show "fst p = stored_key k \<longrightarrow> snd p = stored_val X (k, v)"
    proof
      assume "fst p = stored_key k"
      with p have "stored_key k' = stored_key k" by simp
      with assms(3) kv have "k' = k" by force
      with kv assms(1,2) have "v' = v" by (meson eq_key_imp_eq_value)
      with \<open>k' = k\<close> p show "snd p = stored_val X (k, v)" by simp
    qed
  qed
  from map_of_unique [OF in_ys uniq] show ?thesis by (simp add: redact_map_of)
qed

lemma session_keys_simps:
  "key \<notin> session_keys \<longleftrightarrow>
     key \<noteq> ''event_type'' \<and> key \<noteq> ''session_id'' \<and> key \<noteq> ''aiss_profile'' \<and>
     key \<noteq> ''peer_agent_id'' \<and> key \<noteq> ''peer_signature'' \<and>
     key \<noteq> ''interaction_hash'' \<and> key \<noteq> ''my_role''"
  by (simp add: session_keys_def)

lemma full_payload_other:
  "key \<notin> session_keys \<Longrightarrow> map_of (full_payload pl et sid pid psig) key = map_of pl key"
  by (simp add: full_payload_lookup session_keys_simps)

lemma cosigned_payload_other:
  "key \<notin> session_keys \<Longrightarrow>
   map_of (AList.update ''my_role'' r (AList.update ''interaction_hash'' h pl)) key = map_of pl key"
  by (simp add: update_conv' session_keys_simps)

text \<open>Outside the session's own keys, every event stored by a stamp carries the redacted payload.\<close>

lemma stamp_stored_payload:
  assumes "stamp X a et pl peer s E = (Inr ev0, s', E')"
    and "ev \<in> set (stored_by E E')" and "key \<notin> session_keys"
  shows "map_of (ev_payload ev) key = map_of (redact X pl) key"
proof (cases "truthy peer")
  case False
  then have np: "(if truthy peer then peer else None) = None" by simp
  from assms(1) obtain agent where ag: "get_agent s a = Inr agent" and st: "started s"
    by (auto simp: stamp_def require_started_def split: if_splits sum.splits)
  obtain e1 m1 E1 where ms: "member_stamp X agent et (redact X pl) (session_id s) None None E = (e1, m1, E1)"
    by (metis prod_cases3)
  from assms(1) ag st np ms have "E' = E1"
    by (simp add: stamp_def require_started_def Let_def)
  with member_stamp_result [OF ms] assms(2) have "ev = e1"
    by (simp add: stored_by_def)
  with member_stamp_payload [OF ms] assms(3) show ?thesis
    by (simp add: full_payload_other)
next
  case True
  then obtain p where p: "peer = Some p" "p \<noteq> []" by (cases peer) auto
  from assms(1) obtain agent where ag: "map_of (agents s) a = Some agent" and st: "started s"
    by (auto simp: stamp_def require_started_def get_agent_def split: if_splits option.splits)
  from assms(1) p ag st obtain peer_agent where pa: "map_of (agents s) p = Some peer_agent"
    by (auto simp: stamp_def require_started_def get_agent_def Let_def split: option.splits)
  from cosigned_stamp [OF st ag p(2) pa, where X = X and et = et and pl = pl and E = E]
  obtain ev_i agent1 E1 ev_r peer1 E2 where
    i: "member_stamp X agent et
             (AList.update ''my_role'' (VStr ''initiator'')
               (AList.update ''interaction_hash''
                 (VStr (shared_interaction_hash X agent peer_agent E)) (redact X pl)))
             (session_id s) (Some (agent_id peer_agent)) None (E\<lparr>tick := Suc (tick E)\<rparr>)
             = (ev_i, agent1, E1)" and
    r: "member_stamp X (if p = a then agent1 else peer_agent) (et @ ''_received'')
             (AList.update ''my_role'' (VStr ''responder'')
               (AList.update ''interaction_hash''
                 (VStr (shared_interaction_hash X agent peer_agent E)) (redact X pl)))
             (session_id s) (Some (agent_id agent)) (Some (ev_signature ev_i)) E1
             = (ev_r, peer1, E2)" and
    s2: "stamp X a et pl (Some p) s E =
             (Inr ev_i,
              s\<lparr>agents := AList.update p peer1 (AList.update a agent1 (agents s))\<rparr>, E2)"
    by blast
  from s2 assms(1) p have "E' = E2" by simp
  with member_stamp_result [OF i] member_stamp_result [OF r] assms(2)
  have "ev = ev_i \<or> ev = ev_r" by (auto simp: stored_by_def)
  with member_stamp_payload [OF i] member_stamp_payload [OF r] assms(3) show ?thesis
    by (auto simp: full_payload_other cosigned_payload_other)
qed

lemma stamp_returned_stored:
  assumes "stamp X a et pl peer s E = (Inr ev0, s', E')"
  shows "ev0 \<in> set (stored_by E E')"
proof (cases "truthy peer")
  case False
  then have np: "(if truthy peer then peer else None) = None" by simp
  from assms(1) obtain agent where ag: "get_agent s a = Inr agent" and st: "started s"
    by (auto simp: stamp_def require_started_def split: if_splits sum.splits)
  obtain e1 m1 E1 where ms: "member_stamp X agent et (redact X pl) (session_id s) None None E = (e1, m1, E1)"
    by (metis prod_cases3)
  from assms(1) ag st np ms have "E' = E1" "ev0 = e1"
    by (simp_all add: stamp_def require_started_def Let_def)
  with member_stamp_result [OF ms] show ?thesis
    by (simp add: stored_by_def)
next
  case True
  then obtain p where p: "peer = Some p" "p \<noteq> []" by (cases peer) auto
  from assms(1) obtain agent where ag: "map_of (agents s) a = Some agent" and st: "started s"
    by (auto simp: stamp_def require_started_def get_agent_def split: if_splits option.splits)
  from assms(1) p ag st obtain peer_agent where pa: "map_of (agents s) p = Some peer_agent"
    by (auto simp: stamp_def require_started_def get_agent_def Let_def split: option.splits)
  from cosigned_stamp [OF st ag p(2) pa, where X = X and et = et and pl = pl and E = E]
  obtain ev_i agent1 E1 ev_r peer1 E2 where
    i: "member_stamp X agent et
             (AList.update ''my_role'' (VStr ''initiator'')
               (AList.update ''interaction_hash''
                 (VStr (shared_interaction_hash X agent peer_agent E)) (redact X pl)))
             (session_id s) (Some (agent_id peer_agent)) None (E\<lparr>tick := Suc (tick E)\<rparr>)
             = (ev_i, agent1, E1)" and
    r: "member_stamp X (if p = a then agent1 else peer_agent) (et @ ''_received'')
             (AList.update ''my_role'' (VStr ''responder'')
               (AList.update ''interaction_hash''
                 (VStr (shared_interaction_hash X agent peer_agent E)) (redact X pl)))
             (session_id s) (Some (agent_id agent)) (Some (ev_signature ev_i)) E1
             = (ev_r, peer1, E2)" and
    s2: "stamp X a et pl (Some p) s E =
             (Inr ev_i,
              s\<lparr>agents := AList.update p peer1 (AList.update a agent1 (agents s))\<rparr>, E2)"
    by blast
  from s2 assms(1) p have "E' = E2" "ev0 = ev_i" by simp_all
  with member_stamp_result [OF i] member_stamp_result [OF r]
  show ?thesis by (auto simp: stored_by_def)
qed

text \<open>
  C6, as amended. Take a stamp call that returns normally, a payload with distinct keys,
  one of its fields, and any event the call has stored (the returned event is one).
  If the key ends in \<open>_hash\<close> or \<open>_id\<close>, is not one of the keys the session writes itself
  and is not the hashed name of another field, the event holds the field verbatim. If the
  key does not end so, and its hashed name is neither a key the session writes itself nor
  a key of the payload, the event holds the digest of the value under the hashed name.
  If the key does not end so and is not a key the session writes itself, the event has no
  field of that key.
\<close>

theorem redaction_rule:
  assumes "stamp X a et pl peer s E = (Inr ev0, s', E')"
    and "ev \<in> set (stored_by E E')"
    and "(k, v) \<in> set pl" and "distinct (map fst pl)"
  shows "ev0 \<in> set (stored_by E E') \<and>
         (kept_verbatim k \<and> k \<notin> session_keys \<and>
            (\<forall>k' \<in> fst ` set pl. \<not> kept_verbatim k' \<longrightarrow> k' @ ''_hash'' \<noteq> k)
            \<longrightarrow> map_of (ev_payload ev) k = Some v) \<and>
         (\<not> kept_verbatim k \<and> k @ ''_hash'' \<notin> session_keys \<and> k @ ''_hash'' \<notin> fst ` set pl
            \<longrightarrow> map_of (ev_payload ev) (k @ ''_hash'') = Some (VStr (digest X v))) \<and>
         (\<not> kept_verbatim k \<and> k \<notin> session_keys \<longrightarrow> map_of (ev_payload ev) k = None)"
proof -
  note sp = stamp_stored_payload [OF assms(1,2)]
  have 1: "map_of (ev_payload ev) k = Some v"
    if kept: "kept_verbatim k" and ns: "k \<notin> session_keys"
      and nc: "\<forall>k' \<in> fst ` set pl. \<not> kept_verbatim k' \<longrightarrow> k' @ ''_hash'' \<noteq> k"
  proof -
    have "\<forall>k' \<in> fst ` set pl. k' \<noteq> k \<longrightarrow> stored_key k' \<noteq> stored_key k"
      using kept nc by (auto simp: stored_key_def)
    from redact_field [OF assms(3,4) this, of X] kept
    have "map_of (redact X pl) k = Some v" by (simp add: stored_key_def stored_val_def)
    with sp [OF ns] show ?thesis by simp
  qed
  have 2: "map_of (ev_payload ev) (k @ ''_hash'') = Some (VStr (digest X v))"
    if nk: "\<not> kept_verbatim k" and ns: "k @ ''_hash'' \<notin> session_keys"
      and nc: "k @ ''_hash'' \<notin> fst ` set pl"
  proof -
    have "\<forall>k' \<in> fst ` set pl. k' \<noteq> k \<longrightarrow> stored_key k' \<noteq> stored_key k"
      using nk nc by (force simp: stored_key_def split: if_splits)
    from redact_field [OF assms(3,4) this, of X] nk
    have "map_of (redact X pl) (k @ ''_hash'') = Some (VStr (digest X v))"
      by (simp add: stored_key_def stored_val_def)
    with sp [OF ns] show ?thesis by simp
  qed
  have 3: "map_of (ev_payload ev) k = None"
    if nk: "\<not> kept_verbatim k" and ns: "k \<notin> session_keys"
  proof -
    from nk redact_keys_kept [of X pl k] have "map_of (redact X pl) k = None"
      by (cases "map_of (redact X pl) k") auto
    with sp [OF ns] show ?thesis by simp
  qed
  show ?thesis
  proof (intro conjI impI)
    show "ev0 \<in> set (stored_by E E')" by (rule stamp_returned_stored [OF assms(1)])
  next
    assume h: "kept_verbatim k \<and> k \<notin> session_keys \<and>
            (\<forall>k' \<in> fst ` set pl. \<not> kept_verbatim k' \<longrightarrow> k' @ ''_hash'' \<noteq> k)"
    show "map_of (ev_payload ev) k = Some v"
      by (rule 1) (use h in simp_all)
  next
    assume h: "\<not> kept_verbatim k \<and> k @ ''_hash'' \<notin> session_keys \<and> k @ ''_hash'' \<notin> fst ` set pl"
    show "map_of (ev_payload ev) (k @ ''_hash'') = Some (VStr (digest X v))"
      by (rule 2) (use h in simp_all)
  next
    assume h: "\<not> kept_verbatim k \<and> k \<notin> session_keys"
    show "map_of (ev_payload ev) k = None"
      by (rule 3) (use h in simp_all)
  qed
qed

theorem redaction_rule_witness:
  "\<not> isl (fst trade_stamp) \<and>
   projr (fst trade_stamp) \<in> set (stored_by (snd started_AB) (snd (snd trade_stamp))) \<and>
   map_of (ev_payload (projr (fst trade_stamp))) ''symbol_hash'' = Some (VStr ''sha(AAPL)'') \<and>
   map_of (ev_payload (projr (fst trade_stamp))) ''symbol'' = None \<and>
   map_of (ev_payload (projr (fst trade_stamp))) ''order_id'' = Some (VStr ''X1'')"
proof -
  have ok: "\<not> isl (fst trade_stamp)" unfolding trade_stamp_def started_AB_def by code_simp
  then have eq: "stamp X0 ''A'' ''trade'' [(''symbol'', VStr ''AAPL''), (''order_id'', VStr ''X1'')]
                   None (fst started_AB) (snd started_AB) =
                 (Inr (projr (fst trade_stamp)), fst (snd trade_stamp), snd (snd trade_stamp))"
    by (cases "fst trade_stamp") (simp_all add: trade_stamp_def prod_eq_iff)
  from stamp_returned_stored [OF eq]
  have mem: "projr (fst trade_stamp) \<in> set (stored_by (snd started_AB) (snd (snd trade_stamp)))" .
  have d: "distinct (map fst [(''symbol'', VStr ''AAPL''), (''order_id'', VStr ''X1'')])" by simp
  have k1: "\<not> kept_verbatim ''symbol''" and k2: "kept_verbatim ''order_id''"
    by (simp_all add: kept_verbatim_def endswith_def)
  from redaction_rule [OF eq mem _ d, of "''symbol''" "VStr ''AAPL''"]
       redaction_rule [OF eq mem _ d, of "''order_id''" "VStr ''X1''"] k1 k2
  have "map_of (ev_payload (projr (fst trade_stamp))) ''symbol_hash'' = Some (VStr ''sha(AAPL)'')"
    and "map_of (ev_payload (projr (fst trade_stamp))) ''symbol'' = None"
    and "map_of (ev_payload (projr (fst trade_stamp))) ''order_id'' = Some (VStr ''X1'')"
    by (simp_all add: session_keys_def X0_def kept_verbatim_def endswith_def)
  with ok mem show ?thesis by simp
qed

text \<open>
  C6 as stated fails: a payload field \<open>session_id\<close> is replaced by the identifier of the
  session, and of two fields \<open>x\<close> and \<open>x_hash\<close> the second takes the place of the digest
  of the first.
\<close>

theorem redaction_rule_counterexample:
  "kept_verbatim ''session_id'' \<and>
   map_of (ev_payload (projr (fst
     (stamp X0 ''A'' ''note'' [(''session_id'', VStr ''other'')] None
        (fst started_AB) (snd started_AB))))) ''session_id'' = Some (VStr ''sess_0123456789abcdef'') \<and>
   \<not> kept_verbatim ''x'' \<and>
   map_of (ev_payload (projr (fst
     (stamp X0 ''A'' ''note'' [(''x'', VInt 1), (''x_hash'', VStr ''abc'')] None
        (fst started_AB) (snd started_AB))))) ''x_hash'' = Some (VStr ''abc'') \<and>
   digest X0 (VInt 1) \<noteq> ''abc''"
  unfolding started_AB_def by code_simp

section \<open>Names that are not registered\<close>

text \<open>
  C7, as amended. On a started session, a stamp whose agent name is not in the registry, or
  whose peer name is non-empty and not in the registry, raises the lookup error for that
  name and returns the session and the environment exactly as they were: no member's
  stored hash or log has changed. An empty peer name is not looked up: the test
  \<open>if peer:\<close> takes it for no peer, and the call is the unilateral stamp.
\<close>

theorem stamp_unknown_name:
  assumes "started s"
    and "map_of (agents s) agent_name = None \<or>
         (peer = Some p \<and> p \<noteq> [] \<and> map_of (agents s) p = None)"
  shows "stamp X agent_name event_type pl peer s E =
           (Inl (KeyError (if map_of (agents s) agent_name = None then agent_name else p)), s, E)
         \<and> stamp X a et q (Some []) s E = stamp X a et q None s E"
  using assms
  by (auto simp: stamp_def require_started_def get_agent_def split: option.splits)

theorem stamp_unknown_name_witness:
  "started (fst started_AB) \<and> map_of (agents (fst started_AB)) ''Z'' = None \<and>
   map_of (agents (fst started_AB)) ''A'' \<noteq> None \<and>
   stamp X0 ''A'' ''advice'' [(''x'', VInt 1)] (Some ''Z'') (fst started_AB) (snd started_AB) =
     (Inl (KeyError ''Z''), fst started_AB, snd started_AB) \<and>
   stamp X0 ''Z'' ''advice'' [(''x'', VInt 1)] (Some ''A'') (fst started_AB) (snd started_AB) =
     (Inl (KeyError ''Z''), fst started_AB, snd started_AB) \<and>
   stamp X0 ''A'' ''advice'' [(''x'', VInt 1)] (Some []) (fst started_AB) (snd started_AB) =
     stamp X0 ''A'' ''advice'' [(''x'', VInt 1)] None (fst started_AB) (snd started_AB)"
proof -
  have s: "started (fst started_AB)" unfolding started_AB_def by code_simp
  have z: "map_of (agents (fst started_AB)) ''Z'' = None" unfolding started_AB_def by code_simp
  have a: "map_of (agents (fst started_AB)) ''A'' \<noteq> None" unfolding started_AB_def by code_simp
  have d: "map_of (agents (fst started_AB)) ''A'' = None \<or>
           (Some ''Z'' = Some ''Z'' \<and> ''Z'' \<noteq> [] \<and> map_of (agents (fst started_AB)) ''Z'' = None)"
    using z by simp
  have e: "map_of (agents (fst started_AB)) ''Z'' = None \<or>
           (Some ''A'' = Some ''A'' \<and> ''A'' \<noteq> [] \<and> map_of (agents (fst started_AB)) ''A'' = None)"
    using z by simp
  from stamp_unknown_name [OF s d, where X = X0 and event_type = "''advice''"
         and pl = "[(''x'', VInt 1)]" and E = "snd started_AB" and a = "''A''"
         and et = "''advice''" and q = "[(''x'', VInt 1)]"]
    stamp_unknown_name [OF s e, where X = X0 and event_type = "''advice''"
         and pl = "[(''x'', VInt 1)]" and E = "snd started_AB" and a = "''A''"
         and et = "''advice''" and q = "[(''x'', VInt 1)]"]
    s z a
  show ?thesis by simp
qed

text \<open>
  C7 as stated fails: the empty string is not a name of the registry, yet a stamp with the
  empty string as peer raises nothing and appends an event to the log of the agent.
\<close>

theorem stamp_empty_peer_counterexample:
  "started (fst started_AB) \<and>
   map_of (agents (fst started_AB)) [] = None \<and>
   \<not> isl (fst (stamp X0 ''A'' ''advice'' [(''x'', VInt 1)] (Some [])
                (fst started_AB) (snd started_AB))) \<and>
   length (member_log (fst (snd (stamp X0 ''A'' ''advice'' [(''x'', VInt 1)] (Some [])
                                   (fst started_AB) (snd started_AB)))) ''A'') =
     Suc (length (member_log (fst started_AB) ''A''))"
  unfolding started_AB_def by code_simp

section \<open>Export\<close>

lemma map_of_rev_map_snd:
  "map_of (rev (map (\<lambda>a. (fst a, g (snd a))) xs)) nm = map_option g (map_of (rev xs) nm)"
proof -
  have "rev (map (\<lambda>a. (fst a, g (snd a))) xs) = map (\<lambda>(k, v). (k, g v)) (rev xs)"
    by (simp add: rev_map case_prod_beta)
  then show ?thesis by (simp add: map_of_map)
qed

lemma summary_agent_count:
  "val_path [''agents'', nm, ''event_count''] (summary s) =
     map_option (\<lambda>m. VInt (int (length (events m)))) (map_of (rev (agents s)) nm)"
  using fold_update_map_of [of fst
     "\<lambda>a. VDict [(''agent_id'', VStr (agent_id (snd a))),
                 (''event_count'', VInt (int (length (events (snd a))))),
                 (''last_hash'', opt_str (previous_hash (snd a)))]" "agents s" "[]"]
    map_of_rev_map_snd [of "\<lambda>m. VDict [(''agent_id'', VStr (agent_id m)),
                 (''event_count'', VInt (int (length (events m)))),
                 (''last_hash'', opt_str (previous_hash m))]" "agents s" nm]
  by (simp add: summary_def split: option.splits)

lemma export_agent_count:
  "val_path [''agents'', nm, ''event_count''] (export_data s) =
     map_option (\<lambda>m. VInt (int (length (events m)))) (map_of (rev (agents s)) nm)"
  using fold_update_map_of [of fst
     "\<lambda>a. VDict [(''agent_id'', VStr (agent_id (snd a))),
                 (''event_count'', VInt (int (length (events (snd a))))),
                 (''events'', VList (map event_val (events (snd a))))]" "agents s" "[]"]
    map_of_rev_map_snd [of "\<lambda>m. VDict [(''agent_id'', VStr (agent_id m)),
                 (''event_count'', VInt (int (length (events m)))),
                 (''events'', VList (map event_val (events m)))]" "agents s" nm]
  by (simp add: export_data_def split: option.splits)

lemma export_session_part:
  "val_path (''session'' # ks) (export_data s) = val_path ks (summary s)"
  by (simp add: export_data_def)

text \<open>
  C8. On a started session, export returns its path, leaves the session exactly as it was
  and writes a document under the path. Read back from the file, the document gives the
  same total event count and handshake count as \<open>summary\<close> computes on the session, and
  for every name the same event count, both in its summary part and in its per-agent part.
\<close>

theorem export_roundtrip:
  assumes "started s"
  shows "\<exists>doc E'. export X path s E = (Inr path, s, E') \<and>
           map_of (files E') path = Some doc \<and>
           val_path [''session'', ''total_events''] doc = Some (VInt (total_events s)) \<and>
           val_path [''total_events''] (summary s) = Some (VInt (total_events s)) \<and>
           val_path [''session'', ''handshake_count''] doc = Some (VInt (int (length (handshakes s)))) \<and>
           val_path [''handshake_count''] (summary s) = Some (VInt (int (length (handshakes s)))) \<and>
           (\<forall>nm. val_path [''session'', ''agents'', nm, ''event_count''] doc =
                   val_path [''agents'', nm, ''event_count''] (summary s) \<and>
                 val_path [''agents'', nm, ''event_count''] doc =
                   val_path [''agents'', nm, ''event_count''] (summary s))"
proof -
  have e: "export X path s E =
             (Inr path, s, E\<lparr>files := AList.update path (export_data s) (files E)\<rparr>)"
    using assms by (simp add: export_def require_started_def)
  have f: "map_of (files (E\<lparr>files := AList.update path (export_data s) (files E)\<rparr>)) path =
             Some (export_data s)"
    by (simp add: update_conv')
  have t: "val_path [''total_events''] (summary s) = Some (VInt (total_events s))"
    and h: "val_path [''handshake_count''] (summary s) = Some (VInt (int (length (handshakes s))))"
    by (simp_all add: summary_def)
  have a: "\<forall>nm. val_path [''session'', ''agents'', nm, ''event_count''] (export_data s) =
                   val_path [''agents'', nm, ''event_count''] (summary s) \<and>
                 val_path [''agents'', nm, ''event_count''] (export_data s) =
                   val_path [''agents'', nm, ''event_count''] (summary s)"
    by (simp only: export_session_part export_agent_count summary_agent_count simp_thms)
  have st: "val_path [''session'', ''total_events''] (export_data s) = Some (VInt (total_events s))"
    and sh: "val_path [''session'', ''handshake_count''] (export_data s) =
               Some (VInt (int (length (handshakes s))))"
    using t h by (simp_all only: export_session_part)
  from e f t h a st sh show ?thesis by blast
qed

theorem export_roundtrip_witness:
  "started (fst started_AB) \<and>
   (\<exists>doc E'. export X0 ''audit.json'' (fst started_AB) (snd started_AB) =
                (Inr ''audit.json'', fst started_AB, E') \<and>
      map_of (files E') ''audit.json'' = Some doc \<and>
      val_path [''session'', ''total_events''] doc = Some (VInt 4) \<and>
      val_path [''total_events''] (summary (fst started_AB)) = Some (VInt 4) \<and>
      val_path [''session'', ''handshake_count''] doc = Some (VInt 1) \<and>
      val_path [''agents'', ''A'', ''event_count''] doc = Some (VInt 2) \<and>
      val_path [''agents'', ''A'', ''event_count''] (summary (fst started_AB)) = Some (VInt 2))"
proof -
  have t: "total_events (fst started_AB) = 4" unfolding started_AB_def by code_simp
  have h: "length (handshakes (fst started_AB)) = 1" unfolding started_AB_def by code_simp
  have a: "val_path [''agents'', ''A'', ''event_count''] (summary (fst started_AB)) = Some (VInt 2)"
    unfolding started_AB_def by code_simp
  from export_roundtrip [OF started_AB_facts(1), of X0 "''audit.json''" "snd started_AB"]
  obtain doc E' where
    "export X0 ''audit.json'' (fst started_AB) (snd started_AB) =
                (Inr ''audit.json'', fst started_AB, E')"
    "map_of (files E') ''audit.json'' = Some doc"
    "val_path [''session'', ''total_events''] doc = Some (VInt 4)"
    "val_path [''total_events''] (summary (fst started_AB)) = Some (VInt 4)"
    "val_path [''session'', ''handshake_count''] doc = Some (VInt 1)"
    "val_path [''agents'', ''A'', ''event_count''] doc =
       val_path [''agents'', ''A'', ''event_count''] (summary (fst started_AB))"
    unfolding t h by auto
  with a started_AB_facts(1) show ?thesis by auto
qed

section \<open>The events accessor\<close>

lemma history_list_objs_upd:
  "v \<noteq> ref \<Longrightarrow> history (H\<lparr>list_objs := (list_objs H)(v := x)\<rparr>) ref = history H ref"
  by (simp add: history_def split: option.splits)

text \<open>The heap form of appending agrees with the list form: the history grows by the event.\<close>

lemma map_filter_append:
  "List.map_filter f (xs @ ys) = List.map_filter f xs @ List.map_filter f ys"
  by (simp add: List.map_filter_def)

lemma events_append_history:
  assumes "wf_heap H" and "list_objs H ref = Some items"
    and "\<forall>a \<in> set items. a < next_addr H"
  shows "history (events_append H ref e) ref = history H ref @ [e]"
proof -
  have "List.map_filter ((dict_objs H)(next_addr H := Some e)) items =
        List.map_filter (dict_objs H) items"
    using assms(3) by (induction items) (auto simp: List.map_filter_simps split: option.splits)
  then show ?thesis
    using assms(2)
    by (simp add: events_append_def alloc_event_def history_def map_filter_append
          List.map_filter_simps)
qed

text \<open>
  C9, as amended. The accessor returns a new list object with the same items. Whatever a
  caller does to that list itself (appending, removing, replacing or clearing entries)
  leaves the member's own list and the history it holds unchanged. The event records are
  not copied: they are the very objects the log refers to.
\<close>

theorem events_copy_isolated:
  assumes "wf_heap H" and "list_objs H ref = Some items"
    and "events_copy H ref = (view, H1)"
    and "on_list_only mu" and "apply_mutation H1 view mu = Inr H2"
  shows "view \<noteq> ref \<and> list_objs H1 view = Some items \<and>
         history H1 ref = history H ref \<and>
         list_objs H2 ref = Some items \<and> history H2 ref = history H ref"
proof -
  from assms(1,2) have lt: "ref < next_addr H" by (auto simp: wf_heap_def)
  from assms(2,3) have v: "view = next_addr H"
    and H1: "H1 = H\<lparr>next_addr := Suc (next_addr H),
                    list_objs := (list_objs H)(next_addr H := Some items)\<rparr>"
    by (auto simp: events_copy_def alloc_list_def)
  from lt v have ne: "view \<noteq> ref" by simp
  have l1: "list_objs H1 view = Some items" by (simp add: H1 v)
  have h1: "history H1 ref = history H ref"
    using ne by (simp add: H1 v history_def split: option.splits)
  have r1: "list_objs H1 ref = Some items" using ne assms(2) by (simp add: H1 v)
  from assms(4,5) l1 obtain items' where
    H2: "H2 = H1\<lparr>list_objs := (list_objs H1)(view := Some items')\<rparr>"
    by (cases mu) (auto split: if_splits)
  from H2 ne r1 have "list_objs H2 ref = Some items" by simp
  moreover from H2 ne h1 have "history H2 ref = history H ref"
    by (simp add: history_list_objs_upd)
  ultimately show ?thesis using ne l1 h1 by simp
qed

lemma heap1_facts:
  "wf_heap heap1"
  "list_objs heap1 0 = Some [1]"
  "history heap1 0 = [event1]"
  by (simp_all add: wf_heap_def heap1_def events_append_def alloc_event_def new_events_list_def
        alloc_list_def empty_heap_def history_def List.map_filter_simps)

theorem events_copy_isolated_witness:
  "wf_heap heap1 \<and> list_objs heap1 0 = Some [1] \<and> on_list_only ListClear \<and>
   \<not> isl (apply_mutation (snd (events_copy heap1 0)) (fst (events_copy heap1 0)) ListClear) \<and>
   list_objs (projr (apply_mutation (snd (events_copy heap1 0)) (fst (events_copy heap1 0)) ListClear))
     (fst (events_copy heap1 0)) = Some [] \<and>
   history (projr (apply_mutation (snd (events_copy heap1 0)) (fst (events_copy heap1 0)) ListClear)) 0
     = [event1]"
proof -
  let ?v = "fst (events_copy heap1 0)" and ?H1 = "snd (events_copy heap1 0)"
  have c: "events_copy heap1 0 = (?v, ?H1)" by simp
  have l: "list_objs ?H1 ?v = Some [1]"
    by (simp add: events_copy_def alloc_list_def heap1_facts(2))
  then have m: "apply_mutation ?H1 ?v ListClear =
                  Inr (?H1\<lparr>list_objs := (list_objs ?H1)(?v := Some [])\<rparr>)"
    by simp
  have o: "on_list_only ListClear" by simp
  from events_copy_isolated [OF heap1_facts(1,2) c o m] heap1_facts(3)
  have "history (?H1\<lparr>list_objs := (list_objs ?H1)(?v := Some [])\<rparr>) 0 = [event1]" by simp
  with m heap1_facts(1,2) show ?thesis by simp
qed

text \<open>
  C9 as stated fails: a change made to an event record through the returned list shows in
  the history the member holds.
\<close>

theorem events_copy_counterexample:
  "history heap1 0 = [event1] \<and>
   \<not> isl (apply_mutation (snd (events_copy heap1 0)) (fst (events_copy heap1 0))
            (RecordUpdate 0 (\<lambda>e. e\<lparr>ev_previous_hash := ''forged''\<rparr>))) \<and>
   history (projr (apply_mutation (snd (events_copy heap1 0)) (fst (events_copy heap1 0))
                     (RecordUpdate 0 (\<lambda>e. e\<lparr>ev_previous_hash := ''forged''\<rparr>)))) 0
     = [event1\<lparr>ev_previous_hash := ''forged''\<rparr>] \<and>
   event1\<lparr>ev_previous_hash := ''forged''\<rparr> \<noteq> event1"
  by (simp add: heap1_def events_append_def alloc_event_def new_events_list_def
        alloc_list_def empty_heap_def history_def List.map_filter_simps events_copy_def event1_def)

section \<open>Construction of a session\<close>

text \<open>
  C10. The constructor raises exactly when the list has fewer than two entries (the
  collaborator that loads identities is taken to return normally). Names are not checked
  for uniqueness: the registry holds one member per distinct name, the one built from the
  last entry of that name. A list of two entries of the same name gives a session with a
  single member, on which start succeeds and records no handshake.
\<close>

theorem construction_check:
  "(isl (fst (new_session X defs E)) \<longleftrightarrow> length defs < 2) \<and>
   (length defs < 2 \<longrightarrow> new_session X defs E = (Inl ValueError, E)) \<and>
   (2 \<le> length defs \<longrightarrow>
      (\<exists>s. fst (new_session X defs E) = Inr s \<and> \<not> started s \<and>
           distinct (map fst (agents s)) \<and>
           fst ` set (agents s) = def_name ` set defs \<and>
           map_of (agents s) =
             map_of (rev (map (\<lambda>d. (def_name d, new_member X (def_name d) (identity_file d))) defs)))) \<and>
   (def_name d1 = def_name d2 \<longrightarrow>
      (\<exists>s E1. new_session X [d1, d2] E = (Inr s, E1) \<and>
           agents s = [(def_name d2, new_member X (def_name d2) (identity_file d2))] \<and>
           fst (start X s E1) = Inr () \<and>
           handshakes (fst (snd (start X s E1))) = []))"
proof -
  have 1: "isl (fst (new_session X defs E)) \<longleftrightarrow> length defs < 2"
    by (simp add: new_session_def)
  have 2: "length defs < 2 \<longrightarrow> new_session X defs E = (Inl ValueError, E)"
    by (simp add: new_session_def)
  have 3: "2 \<le> length defs \<longrightarrow>
      (\<exists>s. fst (new_session X defs E) = Inr s \<and> \<not> started s \<and>
           distinct (map fst (agents s)) \<and>
           fst ` set (agents s) = def_name ` set defs \<and>
           map_of (agents s) =
             map_of (rev (map (\<lambda>d. (def_name d, new_member X (def_name d) (identity_file d))) defs)))"
    using fold_update_map_of [of def_name "\<lambda>d. new_member X (def_name d) (identity_file d)" defs "[]"]
      fold_update_distinct [of "[]" def_name "\<lambda>d. new_member X (def_name d) (identity_file d)" defs]
      fold_update_keys [of def_name "\<lambda>d. new_member X (def_name d) (identity_file d)" defs "[]"]
    by (simp add: new_session_def build_registry_def)
  have 4: "def_name d1 = def_name d2 \<longrightarrow>
      (\<exists>s E1. new_session X [d1, d2] E = (Inr s, E1) \<and>
           agents s = [(def_name d2, new_member X (def_name d2) (identity_file d2))] \<and>
           fst (start X s E1) = Inr () \<and>
           handshakes (fst (snd (start X s E1))) = [])"
    by (simp add: new_session_def build_registry_def start_def Let_def split: prod.splits)
  from 1 2 3 4 show ?thesis by blast
qed

theorem construction_check_witness:
  "new_session X0 [\<lparr>def_name = ''A'', identity_file = ''a''\<rparr>] env0 = (Inl ValueError, env0) \<and>
   \<not> isl (fst (new_session X0 defs_AB env0)) \<and>
   (\<exists>s E1. new_session X0 defs_AA env0 = (Inr s, E1) \<and>
      agents s = [(''A'', new_member X0 ''A'' ''a2'')] \<and>
      fst (start X0 s E1) = Inr () \<and>
      handshakes (fst (snd (start X0 s E1))) = [])"
  using construction_check [of X0 "[\<lparr>def_name = ''A'', identity_file = ''a''\<rparr>]" env0
          "\<lparr>def_name = ''A'', identity_file = ''a''\<rparr>" "\<lparr>def_name = ''A'', identity_file = ''a2''\<rparr>"]
        construction_check [of X0 defs_AB env0
          "\<lparr>def_name = ''A'', identity_file = ''a''\<rparr>" "\<lparr>def_name = ''A'', identity_file = ''a2''\<rparr>"]
  by (simp add: defs_AA_def defs_AB_def)

end
